(* ===== verification/Prelude.thy ===== *)
theory Prelude
  imports Main "HOL-Library.Char_ord" "HOL-Library.List_Lexorder"
begin

text \<open>
  Shared vocabulary of the development: the names of the model's basic types, the collection of rewrite
  rules for concrete ASCII text, errors as sums, and the interfaces several components implement: a
  step function with an invariant, and a writer.

  A Go string and a Go byte slice are both sequences of bytes; both are HOL strings here, one
  \<open>char\<close> per byte. Runes are code points (\<open>nat\<close>), Go \<open>int\<close>s are \<open>int\<close> with the bounds written
  out where they matter, and a Go pair \<open>(value, error)\<close> is a sum with the error on the left.
\<close>

type_synonym bytes = string
type_synonym rune = nat
type_synonym duration = int \<comment> \<open>\<open>time.Duration\<close>: signed nanoseconds\<close>
type_synonym syserr = string \<comment> \<open>the text of an error made by the operating system or a library\<close>

named_theorems ascii_simps \<open>definitions that compute with concrete ASCII bytes\<close>

subsection \<open>Errors as values\<close>

text \<open>\<open>v, err := f(); if err != nil { return err }\<close> as a sequencing combinator.\<close>

definition bind_err :: "'e + 'a \<Rightarrow> ('a \<Rightarrow> 'e + 'b) \<Rightarrow> 'e + 'b" where
  "bind_err m f = (case m of Inl e \<Rightarrow> Inl e | Inr a \<Rightarrow> f a)"

definition map_err :: "('e \<Rightarrow> 'f) \<Rightarrow> 'e + 'a \<Rightarrow> 'f + 'a" where
  "map_err w m = (case m of Inl e \<Rightarrow> Inl (w e) | Inr a \<Rightarrow> Inr a)"

lemma bind_err_simps [simp]:
  "bind_err (Inl e) f = Inl e"
  "bind_err (Inr a) f = f a"
  by (simp_all add: bind_err_def)

lemma map_err_simps [simp]:
  "map_err w (Inl e) = Inl (w e)"
  "map_err w (Inr a) = Inr a"
  by (simp_all add: map_err_def)

lemma bind_err_eq_Inr: "bind_err m f = Inr b \<longleftrightarrow> (\<exists>a. m = Inr a \<and> f a = Inr b)"
  by (cases m) auto

lemma bind_err_eq_Inl: "bind_err m f = Inl e \<longleftrightarrow> m = Inl e \<or> (\<exists>a. m = Inr a \<and> f a = Inl e)"
  by (cases m) auto

lemma map_err_eq_Inr: "map_err w m = Inr a \<longleftrightarrow> m = Inr a"
  by (cases m) auto

lemma map_err_eq_Inl: "map_err w m = Inl f \<longleftrightarrow> (\<exists>e. m = Inl e \<and> f = w e)"
  by (cases m) auto

lemmas err_elims = bind_err_eq_Inr bind_err_eq_Inl map_err_eq_Inr map_err_eq_Inl

subsection \<open>State machines run over a list of inputs\<close>

text \<open>
  Several components are a step function run over a sequence of inputs (the argument parser over
  runes, the capture buffer and the line filter over written chunks, the daemon over finished
  runs). Each proves that one step keeps its invariant and gets the run from here.
\<close>

locale stepper =
  fixes step :: "'s \<Rightarrow> 'e \<Rightarrow> 's"
    and inv :: "'s \<Rightarrow> bool"
  assumes step_inv: "inv s \<Longrightarrow> inv (step s e)"
begin

lemma run_inv: "inv s \<Longrightarrow> inv (foldl step s es)"
  by (induction es arbitrary: s) (simp_all add: step_inv)

end

text \<open>
  A machine with choice is a step relation (the goroutines of the daemon, the processes that share the
  cache volume); what each step keeps, every run keeps.
\<close>

locale step_invariant =
  fixes step :: "'s \<Rightarrow> 's \<Rightarrow> bool"
    and inv :: "'s \<Rightarrow> bool"
  assumes step_keeps: "step s s' \<Longrightarrow> inv s \<Longrightarrow> inv s'"
begin

lemma runs_keep: "step\<^sup>*\<^sup>* s s' \<Longrightarrow> inv s \<Longrightarrow> inv s'"
  by (induction rule: rtranclp_induct) (auto intro: step_keeps)

end

text \<open>
  A machine whose steps are observed or silent, and what is seen of its runs; a specification, whose every
  step is observed. The machine keeps a specification when a silent step is none of it and an observed
  step is one: then it does in every run only what the specification allows.
\<close>

inductive machine_run :: "('l option \<Rightarrow> 's \<Rightarrow> 's \<Rightarrow> bool) \<Rightarrow> 's \<Rightarrow> 'l list \<Rightarrow> 's \<Rightarrow> bool" for step s0 where
  run_start: "machine_run step s0 [] s0"
| run_silent: "machine_run step s0 ls s \<Longrightarrow> step None s s' \<Longrightarrow> machine_run step s0 ls s'"
| run_seen: "machine_run step s0 ls s \<Longrightarrow> step (Some l) s s' \<Longrightarrow> machine_run step s0 (ls @ [l]) s'"

inductive spec_run :: "('l \<Rightarrow> 'a \<Rightarrow> 'a \<Rightarrow> bool) \<Rightarrow> 'a \<Rightarrow> 'l list \<Rightarrow> 'a \<Rightarrow> bool" for step a0 where
  spec_start: "spec_run step a0 [] a0"
| spec_seen: "spec_run step a0 ls a \<Longrightarrow> step l a a' \<Longrightarrow> spec_run step a0 (ls @ [l]) a'"

lemma machine_run_keeps:
  "machine_run step s0 ls s \<Longrightarrow> P s0 \<Longrightarrow> (\<And>l s s'. step l s s' \<Longrightarrow> P s \<Longrightarrow> P s') \<Longrightarrow> P s"
  by (induction rule: machine_run.induct) blast+

locale simulation =
  fixes machine :: "'l option \<Rightarrow> 'c \<Rightarrow> 'c \<Rightarrow> bool"
    and spec :: "'l \<Rightarrow> 'a \<Rightarrow> 'a \<Rightarrow> bool"
    and view :: "'c \<Rightarrow> 'a"
    and inv :: "'c \<Rightarrow> bool"
  assumes inv_kept: "machine lb s s' \<Longrightarrow> inv s \<Longrightarrow> inv s'"
    and silent: "machine None s s' \<Longrightarrow> inv s \<Longrightarrow> view s' = view s"
    and seen: "machine (Some l) s s' \<Longrightarrow> inv s \<Longrightarrow> spec l (view s) (view s')"
begin

lemma run_refines:
  assumes "machine_run machine s0 ls s" "inv s0"
  shows "spec_run spec (view s0) ls (view s) \<and> inv s"
  using assms(1)
proof (induction rule: machine_run.induct)
  case run_start
  then show ?case using assms(2) by (simp add: spec_start)
next
  case (run_silent ls s s')
  then show ?case using silent inv_kept by metis
next
  case (run_seen ls s l s')
  then show ?case using seen inv_kept by (blast intro: spec_seen)
qed

end

subsection \<open>Writers\<close>

text \<open>
  The contract of Go's \<open>io.Writer\<close>: \<open>Write\<close> returns a count and an error, and an error-free write
  consumed all its input. The capture buffer and the line filter provide it; \<open>io.MultiWriter\<close>,
  which tees a subprocess stream into both, relies on it.
\<close>

locale io_writer =
  fixes wr :: "'w \<Rightarrow> bytes \<Rightarrow> nat \<times> syserr option \<times> 'w"
  assumes full_write: "wr w p = (n, None, w') \<Longrightarrow> n = length p"
begin

lemma full_count: "fst (snd (wr w p)) = None \<Longrightarrow> fst (wr w p) = length p"
  by (cases "wr w p") (auto dest: full_write)

end

datatype write_err = SinkErr syserr | ErrShortWrite

text \<open>\<open>io.MultiWriter(w1, w2).Write\<close>: the writers in order, stopping at the first failure.\<close>

definition multi_write ::
  "('v \<Rightarrow> bytes \<Rightarrow> nat \<times> syserr option \<times> 'v) \<Rightarrow> ('w \<Rightarrow> bytes \<Rightarrow> nat \<times> syserr option \<times> 'w)
     \<Rightarrow> 'v \<times> 'w \<Rightarrow> bytes \<Rightarrow> nat \<times> write_err option \<times> 'v \<times> 'w" where
  "multi_write wr1 wr2 vw p =
     (case wr1 (fst vw) p of
        (n, Some e, v') \<Rightarrow> (n, Some (SinkErr e), v', snd vw)
      | (n, None, v') \<Rightarrow>
          if n \<noteq> length p then (n, Some ErrShortWrite, v', snd vw)
          else (case wr2 (snd vw) p of
                  (m, Some e, w') \<Rightarrow> (m, Some (SinkErr e), v', w')
                | (m, None, w') \<Rightarrow>
                    if m \<noteq> length p then (m, Some ErrShortWrite, v', w')
                    else (length p, None, v', w')))"

locale tee = first: io_writer wr1 + second: io_writer wr2
  for wr1 :: "'v \<Rightarrow> bytes \<Rightarrow> nat \<times> syserr option \<times> 'v"
    and wr2 :: "'w \<Rightarrow> bytes \<Rightarrow> nat \<times> syserr option \<times> 'w"
begin

lemma tee_ok:
  "fst (snd (wr1 v p)) = None \<Longrightarrow> fst (snd (wr2 w p)) = None \<Longrightarrow>
     multi_write wr1 wr2 (v, w) p = (length p, None, snd (snd (wr1 v p)), snd (snd (wr2 w p)))"
  by (auto simp: multi_write_def split: prod.splits option.splits
      dest: first.full_write second.full_write)

lemma tee_first_fails:
  "fst (snd (wr1 v p)) = Some e \<Longrightarrow>
     multi_write wr1 wr2 (v, w) p = (fst (wr1 v p), Some (SinkErr e), snd (snd (wr1 v p)), w)"
  by (auto simp: multi_write_def split: prod.splits)

lemma never_short: "fst (snd (multi_write wr1 wr2 vw p)) \<noteq> Some ErrShortWrite"
  by (auto simp: multi_write_def split: prod.splits option.splits
      dest: first.full_write second.full_write)

end

end
