(* ===== verification/Utf8.thy ===== *)
theory Utf8
  imports Prelude
begin

text \<open>
  Go's \<open>unicode/utf8\<close> as the program uses it: \<open>DecodeRune\<close>, \<open>DecodeLastRune\<close>, \<open>AppendRune\<close> and
  \<open>Valid\<close>, on byte strings, with the standard library's tables of lead bytes and accepted second
  bytes. \<open>for _, r := range s\<close> is \<open>runes s\<close>.
\<close>

definition byte_val :: "char \<Rightarrow> nat" where
  "byte_val c = of_char c"

definition byte_of :: "nat \<Rightarrow> char" where
  "byte_of n = char_of n"

lemma byte_val_less [simp]: "byte_val c < 256"
  by (simp add: byte_val_def)

lemma byte_of_val [simp]: "byte_of (byte_val c) = c"
  by (simp add: byte_of_def byte_val_def)

lemma byte_val_of: "n < 256 \<Longrightarrow> byte_val (byte_of n) = n"
  by (simp add: byte_of_def byte_val_def)

lemma byte_val_inj [simp]: "byte_val c = byte_val d \<longleftrightarrow> c = d"
  by (metis byte_of_val)

definition RuneError :: rune where "RuneError = 0xFFFD"
definition RuneSelf :: nat where "RuneSelf = 0x80"
definition MaxRune :: nat where "MaxRune = 0x10FFFF"

declare byte_val_def [ascii_simps] RuneSelf_def [ascii_simps]

text \<open>The tables \<open>first\<close> and \<open>acceptRanges\<close>: size of the sequence and bounds of its second byte.\<close>

definition lead :: "nat \<Rightarrow> (nat \<times> nat \<times> nat) option" where
  "lead p0 =
     (if p0 < 0xC2 then None
      else if p0 < 0xE0 then Some (2, 0x80, 0xBF)
      else if p0 = 0xE0 then Some (3, 0xA0, 0xBF)
      else if p0 = 0xED then Some (3, 0x80, 0x9F)
      else if p0 < 0xF0 then Some (3, 0x80, 0xBF)
      else if p0 = 0xF0 then Some (4, 0x90, 0xBF)
      else if p0 < 0xF4 then Some (4, 0x80, 0xBF)
      else if p0 = 0xF4 then Some (4, 0x80, 0x8F)
      else None)"

definition cont :: "nat \<Rightarrow> bool" where
  "cont b \<longleftrightarrow> 0x80 \<le> b \<and> b \<le> 0xBF"

definition decode_rune :: "bytes \<Rightarrow> rune \<times> nat" where
  "decode_rune p =
     (case p of
        [] \<Rightarrow> (RuneError, 0)
      | c # _ \<Rightarrow>
          let p0 = byte_val c in
          if p0 < RuneSelf then (p0, 1)
          else (case lead p0 of
                  None \<Rightarrow> (RuneError, 1)
                | Some (sz, lo, hi) \<Rightarrow>
                    if length p < sz then (RuneError, 1)
                    else let b1 = byte_val (p ! 1) in
                      if b1 < lo \<or> hi < b1 then (RuneError, 1)
                      else if sz \<le> 2 then (p0 mod 32 * 64 + b1 mod 64, 2)
                      else let b2 = byte_val (p ! 2) in
                        if \<not> cont b2 then (RuneError, 1)
                        else if sz \<le> 3
                          then (p0 mod 16 * 4096 + b1 mod 64 * 64 + b2 mod 64, 3)
                        else let b3 = byte_val (p ! 3) in
                          if \<not> cont b3 then (RuneError, 1)
                          else (p0 mod 8 * 262144 + b1 mod 64 * 4096 + b2 mod 64 * 64
                                  + b3 mod 64, 4)))"

definition valid_rune :: "rune \<Rightarrow> bool" where
  "valid_rune r \<longleftrightarrow> r \<le> MaxRune \<and> \<not> (0xD800 \<le> r \<and> r \<le> 0xDFFF)"

definition encode_rune :: "rune \<Rightarrow> bytes" where
  "encode_rune r0 =
     (let r = (if valid_rune r0 then r0 else RuneError) in
      if r < 0x80 then [byte_of r]
      else if r < 0x800 then [byte_of (0xC0 + r div 64), byte_of (0x80 + r mod 64)]
      else if r < 0x10000
        then [byte_of (0xE0 + r div 4096), byte_of (0x80 + r div 64 mod 64),
              byte_of (0x80 + r mod 64)]
      else [byte_of (0xF0 + r div 262144), byte_of (0x80 + r div 4096 mod 64),
            byte_of (0x80 + r div 64 mod 64), byte_of (0x80 + r mod 64)])"

text \<open>A decoding step that found no encoded rune: Go tells it by \<open>(RuneError, 1)\<close>.\<close>

definition decode_fails :: "bytes \<Rightarrow> bool" where
  "decode_fails p \<longleftrightarrow> decode_rune p = (RuneError, 1)"

lemma decode_rune_Nil [simp]: "decode_rune [] = (RuneError, 0)"
  by (simp add: decode_rune_def)

lemma decode_rune_ascii:
  "byte_val c < RuneSelf \<Longrightarrow> decode_rune (c # p) = (byte_val c, 1)"
  by (simp add: decode_rune_def)

lemma lead_size: "lead b = Some (sz, lo, hi) \<Longrightarrow> sz = 2 \<or> sz = 3 \<or> sz = 4"
  by (auto simp: lead_def split: if_splits)

text \<open>The three shapes of a decoding step on a non-empty string.\<close>

lemma decode_multi:
  assumes "\<not> byte_val c < RuneSelf" and "lead (byte_val c) = Some (sz, lo, hi)"
    and "sz \<le> length (c # t)"
  shows "decode_rune (c # t) =
    (let b1 = byte_val ((c # t) ! 1); b2 = byte_val ((c # t) ! 2); b3 = byte_val ((c # t) ! 3) in
     if b1 < lo \<or> hi < b1 \<or> 3 \<le> sz \<and> \<not> cont b2 \<or> sz = 4 \<and> \<not> cont b3 then (RuneError, 1)
     else (if sz = 2 then byte_val c mod 32 * 64 + b1 mod 64
           else if sz = 3 then byte_val c mod 16 * 4096 + b1 mod 64 * 64 + b2 mod 64
           else byte_val c mod 8 * 262144 + b1 mod 64 * 4096 + b2 mod 64 * 64 + b3 mod 64, sz))"
  using assms lead_size [OF assms(2)] by (auto simp: decode_rune_def Let_def)

lemma decode_short:
  assumes "\<not> byte_val c < RuneSelf"
    and "lead (byte_val c) = None \<or> (\<exists>sz lo hi. lead (byte_val c) = Some (sz, lo, hi) \<and> length (c # t) < sz)"
  shows "decode_rune (c # t) = (RuneError, 1)"
  using assms by (auto simp: decode_rune_def)

lemma decode_rune_cases:
  obtains (ascii) "byte_val c < RuneSelf" "decode_rune (c # t) = (byte_val c, 1)"
  | (bad) "\<not> byte_val c < RuneSelf" "decode_rune (c # t) = (RuneError, 1)"
  | (multi) sz lo hi where "\<not> byte_val c < RuneSelf" "lead (byte_val c) = Some (sz, lo, hi)"
      "sz \<le> length (c # t)" "snd (decode_rune (c # t)) = sz"
proof (cases "byte_val c < RuneSelf")
  case True
  then show ?thesis using ascii by (simp add: decode_rune_ascii)
next
  case False
  show ?thesis
  proof (cases "\<exists>sz lo hi. lead (byte_val c) = Some (sz, lo, hi) \<and> sz \<le> length (c # t)")
    case True
    then obtain sz lo hi where l: "lead (byte_val c) = Some (sz, lo, hi)" "sz \<le> length (c # t)"
      by blast
    show ?thesis
    proof (cases "decode_rune (c # t) = (RuneError, 1)")
      case True
      with False show ?thesis by (rule bad)
    next
      case False
      then have "snd (decode_rune (c # t)) = sz"
        using decode_multi [OF \<open>\<not> byte_val c < RuneSelf\<close> l] by (auto simp: Let_def split: if_splits)
      with \<open>\<not> byte_val c < RuneSelf\<close> l show ?thesis by (rule multi)
    qed
  next
    case none: False
    have "decode_rune (c # t) = (RuneError, 1)"
      using none by (intro decode_short [OF False]) (cases "lead (byte_val c)"; force)
    with False show ?thesis by (rule bad)
  qed
qed

lemma decode_size_bounds: "p \<noteq> [] \<Longrightarrow> 0 < snd (decode_rune p) \<and> snd (decode_rune p) \<le> length p"
proof (cases p)
  case (Cons c t)
  show ?thesis
    by (rule decode_rune_cases [of c t]) (use Cons lead_size in fastforce)+
qed simp

lemma decode_size_pos: "p \<noteq> [] \<Longrightarrow> 0 < snd (decode_rune p)"
  and decode_size_le: "p \<noteq> [] \<Longrightarrow> snd (decode_rune p) \<le> length p"
  using decode_size_bounds by blast+

lemma decode_drop_less [simp]:
  "p \<noteq> [] \<Longrightarrow> length p - snd (decode_rune p) < length p"
  using decode_size_pos [of p] by (cases p) auto

text \<open>A rune that decodes properly decodes the same whatever follows its bytes.\<close>

lemma decode_rune_local:
  assumes "p \<noteq> []" and "\<not> decode_fails p"
  shows "decode_rune (take (snd (decode_rune p)) p @ q) = decode_rune p"
proof -
  from assms(1) obtain c t where p: "p = c # t" by (cases p) auto
  show ?thesis
  proof (rule decode_rune_cases [of c t])
    assume "byte_val c < RuneSelf" "decode_rune (c # t) = (byte_val c, 1)"
    then show ?thesis by (simp add: p decode_rune_ascii)
  next
    assume "decode_rune (c # t) = (RuneError, 1)"
    with assms(2) p show ?thesis by (simp add: decode_fails_def)
  next
    fix sz lo hi
    assume a: "\<not> byte_val c < RuneSelf" "lead (byte_val c) = Some (sz, lo, hi)"
      "sz \<le> length (c # t)" "snd (decode_rune (c # t)) = sz"
    define t' where "t' = take (sz - 1) t @ q"
    have s: "0 < sz" "sz = 2 \<or> sz = 3 \<or> sz = 4" using lead_size [OF a(2)] by auto
    have eq: "take sz (c # t) @ q = c # t'"
      using s(1) by (cases sz) (simp_all add: t'_def)
    have nth: "(c # t') ! i = (c # t) ! i" if "i < sz" for i
      using that a(3) by (simp flip: eq add: nth_append)
    have len: "sz \<le> length (c # t')" using a(3) s(1) by (simp add: t'_def)
    have "decode_rune (c # t') = decode_rune (c # t)"
      using s(2) nth [of 1] nth [of 2] nth [of 3]
      unfolding decode_multi [OF a(1,2) len] decode_multi [OF a(1-3)] Let_def
      by (elim disjE) simp_all
    then show ?thesis by (simp only: p a(4) eq)
  qed
qed

subsection \<open>The runes of a string\<close>

function runes :: "bytes \<Rightarrow> rune list" where
  "runes p = (if p = [] then [] else fst (decode_rune p) # runes (drop (snd (decode_rune p)) p))"
  by pat_completeness auto
termination
  by (relation "measure length") auto

declare runes.simps [simp del]

lemma runes_Nil [simp]: "runes [] = []"
  by (simp add: runes.simps)

lemma runes_nonempty:
  "p \<noteq> [] \<Longrightarrow> runes p = fst (decode_rune p) # runes (drop (snd (decode_rune p)) p)"
  by (simp add: runes.simps)

text \<open>\<open>utf8.Valid\<close>: no decoding step of the string fails.\<close>

function utf8_valid :: "bytes \<Rightarrow> bool" where
  "utf8_valid p =
     (if p = [] then True
      else \<not> decode_fails p \<and> utf8_valid (drop (snd (decode_rune p)) p))"
  by pat_completeness auto
termination
  by (relation "measure length") auto

declare utf8_valid.simps [simp del]

lemma utf8_valid_Nil [simp]: "utf8_valid []"
  by (simp add: utf8_valid.simps)

lemma utf8_valid_nonempty:
  "p \<noteq> [] \<Longrightarrow>
     utf8_valid p \<longleftrightarrow> \<not> decode_fails p \<and> utf8_valid (drop (snd (decode_rune p)) p)"
  by (simp add: utf8_valid.simps)

lemma runes_append_chunk:
  assumes "p \<noteq> []" and "\<not> decode_fails p"
  shows "runes (take (snd (decode_rune p)) p @ q) = fst (decode_rune p) # runes q"
proof -
  have ne: "take (snd (decode_rune p)) p @ q \<noteq> []"
    using assms(1) decode_size_pos by fastforce
  have "drop (snd (decode_rune p)) (take (snd (decode_rune p)) p @ q) = q"
    using decode_size_le [OF assms(1)] by simp
  then show ?thesis
    by (simp add: runes_nonempty [OF ne] decode_rune_local [OF assms])
qed

lemma runes_append: "utf8_valid p \<Longrightarrow> runes (p @ q) = runes p @ runes q"
proof (induction p rule: utf8_valid.induct)
  case (1 p)
  show ?case
  proof (cases "p = []")
    case False
    with "1.prems" have v: "\<not> decode_fails p" "utf8_valid (drop (snd (decode_rune p)) p)"
      by (simp_all add: utf8_valid_nonempty)
    have "runes (take (snd (decode_rune p)) p @ (drop (snd (decode_rune p)) p @ q))
            = fst (decode_rune p) # runes (drop (snd (decode_rune p)) p @ q)"
      by (rule runes_append_chunk [OF False v(1)])
    then have "runes (p @ q) = fst (decode_rune p) # runes (drop (snd (decode_rune p)) p @ q)"
      by (simp flip: append_assoc)
    with "1.IH" [OF False] v(2) show ?thesis by (simp add: runes_nonempty [OF False])
  qed simp
qed

subsection \<open>Encoding and decoding\<close>

lemma masks:
  "(192 + x) mod 32 = x mod (32::nat)" "(224 + x) mod 16 = x mod (16::nat)"
  "(240 + x) mod 8 = x mod (8::nat)" "(128 + x) mod 64 = x mod (64::nat)"
  using mod_mult_self1 [of x 6 32] mod_mult_self1 [of x 14 16] mod_mult_self1 [of x 30 8]
    mod_mult_self1 [of x 2 64] by (simp_all add: add.commute)

lemma decode_seq2:
  assumes "2 \<le> x" "x < 32" "y < 64"
  shows "decode_rune (byte_of (0xC0 + x) # byte_of (0x80 + y) # q) = (x * 64 + y, 2)"
  using assms by (simp add: decode_rune_def byte_val_of RuneSelf_def lead_def Let_def masks)

lemma decode_seq3:
  assumes "x < 16" "y < 64" "z < 64" "x = 0 \<longrightarrow> 32 \<le> y" "x = 13 \<longrightarrow> y < 32"
  shows "decode_rune (byte_of (0xE0 + x) # byte_of (0x80 + y) # byte_of (0x80 + z) # q)
           = (x * 4096 + y * 64 + z, 3)"
  using assms
  by (auto simp add: decode_rune_def byte_val_of RuneSelf_def lead_def Let_def masks cont_def)

lemma decode_seq4:
  assumes "x < 5" "y < 64" "z < 64" "w < 64" "x = 0 \<longrightarrow> 16 \<le> y" "x = 4 \<longrightarrow> y < 16"
  shows "decode_rune (byte_of (0xF0 + x) # byte_of (0x80 + y) # byte_of (0x80 + z)
             # byte_of (0x80 + w) # q)
           = (x * 262144 + y * 4096 + z * 64 + w, 4)"
  using assms
  by (auto simp add: decode_rune_def byte_val_of RuneSelf_def lead_def Let_def masks cont_def)

text \<open>The base-64 digits of a code point.\<close>

lemma rune_digits:
  fixes r :: nat
  shows "r div 4096 * 4096 + r div 64 mod 64 * 64 + r mod 64 = r"
    and "r div 262144 * 262144 + r div 4096 mod 64 * 4096 + r div 64 mod 64 * 64 + r mod 64 = r"
proof -
  have d: "r div 4096 = r div 64 div 64" "r div 262144 = r div 4096 div 64"
    by (simp_all flip: div_mult2_eq)
  have "r div 64 div 64 * 64 + r div 64 mod 64 = r div 64" "r div 64 * 64 + r mod 64 = r"
    "r div 4096 div 64 * 64 + r div 4096 mod 64 = r div 4096"
    by (simp_all only: div_mult_mod_eq)
  then show "r div 4096 * 4096 + r div 64 mod 64 * 64 + r mod 64 = r"
    and "r div 262144 * 262144 + r div 4096 mod 64 * 4096 + r div 64 mod 64 * 64 + r mod 64 = r"
    unfolding d by linarith+
qed

lemma decode_encode:
  assumes "valid_rune r"
  shows "decode_rune (encode_rune r @ q) = (r, length (encode_rune r))"
proof -
  consider "r < 0x80" | "0x80 \<le> r" "r < 0x800" | "0x800 \<le> r" "r < 0x10000"
    | "0x10000 \<le> r" "r \<le> 0x10FFFF"
    using assms by (fastforce simp: valid_rune_def MaxRune_def)
  then show ?thesis
  proof cases
    case 1
    then show ?thesis using assms
      by (simp add: encode_rune_def decode_rune_def byte_val_of RuneSelf_def)
  next
    case 2
    have "2 \<le> r div 64" "r div 64 < 32" "r mod 64 < 64" using 2 by simp_all
    from decode_seq2 [OF this, of q] 2 assms show ?thesis
      by (simp add: encode_rune_def)
  next
    case 3
    note sum = rune_digits(1) [of r]
    have lt: "r mod 64 < 64" "r div 64 mod 64 < 64" "r div 4096 < 16" using 3 by simp_all
    have "decode_rune (byte_of (0xE0 + r div 4096) # byte_of (0x80 + r div 64 mod 64)
             # byte_of (0x80 + r mod 64) # q) = (r div 4096 * 4096 + r div 64 mod 64 * 64 + r mod 64, 3)"
    proof (rule decode_seq3 [OF lt(3,2,1)])
      show "r div 4096 = 0 \<longrightarrow> 32 \<le> r div 64 mod 64"
        using sum lt 3 by linarith
      show "r div 4096 = 13 \<longrightarrow> r div 64 mod 64 < 32"
        using sum lt assms unfolding valid_rune_def by linarith
    qed
    with sum 3 assms show ?thesis by (simp add: encode_rune_def)
  next
    case 4
    note sum = rune_digits(2) [of r]
    have lt: "r mod 64 < 64" "r div 64 mod 64 < 64" "r div 4096 mod 64 < 64" "r div 262144 < 5"
      using 4 by simp_all
    have "decode_rune (byte_of (0xF0 + r div 262144) # byte_of (0x80 + r div 4096 mod 64)
             # byte_of (0x80 + r div 64 mod 64) # byte_of (0x80 + r mod 64) # q)
          = (r div 262144 * 262144 + r div 4096 mod 64 * 4096 + r div 64 mod 64 * 64 + r mod 64, 4)"
    proof (rule decode_seq4 [OF lt(4,3,2,1)])
      show "r div 262144 = 0 \<longrightarrow> 16 \<le> r div 4096 mod 64"
        using sum lt 4 by linarith
      show "r div 262144 = 4 \<longrightarrow> r div 4096 mod 64 < 16"
        using sum lt 4 by linarith
    qed
    with sum 4 assms show ?thesis by (simp add: encode_rune_def)
  qed
qed

lemma encode_rune_nonempty [simp]: "encode_rune r \<noteq> []"
  by (simp add: encode_rune_def Let_def)

lemma runes_encode: "valid_rune r \<Longrightarrow> runes (encode_rune r @ q) = r # runes q"
  by (simp add: runes_nonempty decode_encode)

lemma runes_encode_all:
  "\<forall>r \<in> set rs. valid_rune r \<Longrightarrow> runes (concat (map encode_rune rs) @ q) = rs @ runes q"
  by (induction rs) (simp_all add: runes_encode)

text \<open>A decoded rune encodes back to the bytes it was read from.\<close>

lemma cont_digit: "0x80 \<le> b \<Longrightarrow> b \<le> 0xBF \<Longrightarrow> \<exists>y<64. b = 0x80 + (y::nat)"
  by (rule exI [of _ "b - 0x80"]) auto

lemma digits3:
  assumes "y < 64" "z < (64::nat)"
  shows "(x * 4096 + y * 64 + z) div 4096 = x" "(x * 4096 + y * 64 + z) div 64 mod 64 = y"
    "(x * 4096 + y * 64 + z) mod 64 = z"
proof -
  have eq: "x * 4096 + y * 64 + z = z + (x * 64 + y) * 64" by simp
  have d: "(z + (x * 64 + y) * 64) div 64 = x * 64 + y" "(z + (x * 64 + y) * 64) mod 64 = z"
    using assms(2) by (simp_all only: div_mult_self1 mod_mult_self1) simp_all
  have "(x * 64 + y) div 64 = x" "(x * 64 + y) mod 64 = y" using assms(1) by simp_all
  moreover have "n div 4096 = n div 64 div (64::nat)" for n by (simp flip: div_mult2_eq)
  ultimately show "(x * 4096 + y * 64 + z) div 4096 = x"
    "(x * 4096 + y * 64 + z) div 64 mod 64 = y" "(x * 4096 + y * 64 + z) mod 64 = z"
    by (simp_all only: eq d)
qed

lemma digits4:
  assumes "y < 64" "z < 64" "w < (64::nat)"
  shows "(x * 262144 + y * 4096 + z * 64 + w) div 262144 = x"
    "(x * 262144 + y * 4096 + z * 64 + w) div 4096 mod 64 = y"
    "(x * 262144 + y * 4096 + z * 64 + w) div 64 mod 64 = z"
    "(x * 262144 + y * 4096 + z * 64 + w) mod 64 = w"
proof -
  have eq: "x * 262144 + y * 4096 + z * 64 + w = (x * 64 + y) * 4096 + z * 64 + w" by simp
  have "(x * 64 + y) div 64 = x" "(x * 64 + y) mod 64 = y" using assms(1) by simp_all
  moreover have "n div 262144 = n div 4096 div (64::nat)" for n by (simp flip: div_mult2_eq)
  ultimately show "(x * 262144 + y * 4096 + z * 64 + w) div 262144 = x"
    "(x * 262144 + y * 4096 + z * 64 + w) div 4096 mod 64 = y"
    "(x * 262144 + y * 4096 + z * 64 + w) div 64 mod 64 = z"
    "(x * 262144 + y * 4096 + z * 64 + w) mod 64 = w"
    by (simp_all only: eq digits3 [OF assms(2,3)])
qed

lemma decode_inv:
  assumes "\<not> decode_fails (c # t)" and "\<not> byte_val c < RuneSelf"
  shows "\<exists>r q. valid_rune r \<and> c # t = encode_rune r @ q"
proof -
  obtain sz lo hi where l: "lead (byte_val c) = Some (sz, lo, hi)" "sz \<le> length (c # t)"
    by (rule decode_rune_cases [of c t]) (use assms in \<open>auto simp: decode_fails_def\<close>)
  note ok = assms(1) [unfolded decode_fails_def decode_multi [OF assms(2) l] Let_def]
  show ?thesis
    using lead_size [OF l(1)]
  proof (elim disjE)
    assume sz: "sz = 2"
    then obtain b1 q where t: "t = b1 # q" using l(2) by (cases t) auto
    obtain y where y: "y < 64" "byte_val b1 = 0x80 + y"
      using ok l(1) sz t cont_digit [of "byte_val b1"] by (auto simp: lead_def split: if_splits)
    obtain x where x: "2 \<le> x" "x < 32" "byte_val c = 0xC0 + x"
      using l(1) sz by (auto simp: lead_def intro: that [of "byte_val c - 0xC0"] split: if_splits)
    have b: "c = byte_of (0xC0 + x)" "b1 = byte_of (0x80 + y)"
      by (metis x(3) byte_of_val) (metis y(2) byte_of_val)
    have "valid_rune (x * 64 + y)" "encode_rune (x * 64 + y) = [c, b1]"
      using x y by (auto simp: valid_rune_def MaxRune_def encode_rune_def Let_def b)
    then show ?thesis using t by (metis append_Cons append_Nil)
  next
    assume sz: "sz = 3"
    then obtain b1 b2 q where t: "t = b1 # b2 # q" using l(2) by (cases t; cases "tl t") auto
    obtain y where y: "y < 64" "byte_val b1 = 0x80 + y"
      using ok l(1) sz t cont_digit [of "byte_val b1"] by (auto simp: lead_def split: if_splits)
    obtain z where z: "z < 64" "byte_val b2 = 0x80 + z"
      using ok sz t cont_digit [of "byte_val b2"] by (auto simp: cont_def split: if_splits)
    obtain x where x: "x < 16" "byte_val c = 0xE0 + x"
      using l(1) sz by (auto simp: lead_def intro: that [of "byte_val c - 0xE0"] split: if_splits)
    have lo: "32 \<le> y" if "x = 0" using ok l(1) sz t x y that by (auto simp: lead_def split: if_splits)
    have hi: "y < 32" if "x = 13" using ok l(1) sz t x y that by (auto simp: lead_def split: if_splits)
    have b: "c = byte_of (0xE0 + x)" "b1 = byte_of (0x80 + y)" "b2 = byte_of (0x80 + z)"
      by (metis x(2) byte_of_val) (metis y(2) byte_of_val, metis z(2) byte_of_val)
    define r where "r = x * 4096 + y * 64 + z"
    have digits: "r div 4096 = x" "r div 64 mod 64 = y" "r mod 64 = z"
      unfolding r_def by (rule digits3 [OF y(1) z(1)])+
    have "0x800 \<le> r" using lo x(1) by (cases "x = 0") (auto simp: r_def)
    moreover have "r < 0x10000" using x y z by (simp add: r_def)
    moreover have "\<not> (0xD800 \<le> r \<and> r \<le> 0xDFFF)"
      using hi x(1) y(1) z(1) unfolding r_def by (cases "x = 13"; cases "x < 13") auto
    ultimately have "valid_rune r" "encode_rune r = [c, b1, b2]"
      by (simp_all add: valid_rune_def MaxRune_def encode_rune_def Let_def b digits)
    then show ?thesis using t by (metis append_Cons append_Nil)
  next
    assume sz: "sz = 4"
    then obtain b1 b2 b3 q where t: "t = b1 # b2 # b3 # q"
      using l(2) by (cases t; cases "tl t"; cases "tl (tl t)") auto
    obtain y where y: "y < 64" "byte_val b1 = 0x80 + y"
      using ok l(1) sz t cont_digit [of "byte_val b1"] by (auto simp: lead_def split: if_splits)
    obtain z where z: "z < 64" "byte_val b2 = 0x80 + z"
      using ok sz t cont_digit [of "byte_val b2"] by (auto simp: cont_def split: if_splits)
    obtain w where w: "w < 64" "byte_val b3 = 0x80 + w"
      using ok sz t cont_digit [of "byte_val b3"] by (auto simp: cont_def split: if_splits)
    obtain x where x: "x < 5" "byte_val c = 0xF0 + x"
      using l(1) sz by (auto simp: lead_def intro: that [of "byte_val c - 0xF0"] split: if_splits)
    have lo: "16 \<le> y" if "x = 0" using ok l(1) sz t x y that by (auto simp: lead_def split: if_splits)
    have hi: "y < 16" if "x = 4" using ok l(1) sz t x y that by (auto simp: lead_def split: if_splits)
    have b: "c = byte_of (0xF0 + x)" "b1 = byte_of (0x80 + y)" "b2 = byte_of (0x80 + z)"
      "b3 = byte_of (0x80 + w)"
      by (metis x(2) byte_of_val)
         (metis y(2) byte_of_val, metis z(2) byte_of_val, metis w(2) byte_of_val)
    define r where "r = x * 262144 + y * 4096 + z * 64 + w"
    have digits: "r div 262144 = x" "r div 4096 mod 64 = y" "r div 64 mod 64 = z" "r mod 64 = w"
      unfolding r_def by (rule digits4 [OF y(1) z(1) w(1)])+
    have "0x10000 \<le> r" using lo x(1) by (cases "x = 0") (auto simp: r_def)
    moreover have "r \<le> 0x10FFFF"
      using hi x(1) y(1) z(1) w(1) unfolding r_def by (cases "x = 4") auto
    ultimately have "valid_rune r" "encode_rune r = [c, b1, b2, b3]"
      by (simp_all add: valid_rune_def MaxRune_def encode_rune_def Let_def b digits)
    then show ?thesis using t by (metis append_Cons append_Nil)
  qed
qed

lemma decode_ok_split:
  assumes "p \<noteq> []" and "\<not> decode_fails p"
  obtains r q where "valid_rune r" "p = encode_rune r @ q"
proof -
  from assms(1) obtain c t where p: "p = c # t" by (cases p) auto
  show ?thesis
  proof (cases "byte_val c < RuneSelf")
    case True
    then have "valid_rune (byte_val c)" "p = encode_rune (byte_val c) @ t"
      by (simp_all add: p encode_rune_def valid_rune_def MaxRune_def RuneSelf_def)
    then show ?thesis by (rule that)
  next
    case False
    with decode_inv [of c t] assms p that show ?thesis by blast
  qed
qed

lemma encode_decode:
  assumes "p \<noteq> []" and "\<not> decode_fails p"
  shows "encode_rune (fst (decode_rune p)) = take (snd (decode_rune p)) p"
    and "valid_rune (fst (decode_rune p))"
  by (rule decode_ok_split [OF assms]; simp add: decode_encode)+

text \<open>Valid UTF-8 is exactly the encoding of valid runes, and \<open>runes\<close> reads them back.\<close>

lemma encode_RuneError: "length (encode_rune RuneError) = 3"
  by (simp add: encode_rune_def RuneError_def valid_rune_def MaxRune_def)

lemma utf8_valid_encode:
  "valid_rune r \<Longrightarrow> utf8_valid (encode_rune r @ q) = utf8_valid q"
  by (auto simp: utf8_valid_nonempty decode_encode decode_fails_def encode_RuneError)

lemma utf8_valid_append: "utf8_valid p \<Longrightarrow> utf8_valid (p @ q) = utf8_valid q"
proof (induction p rule: utf8_valid.induct)
  case (1 p)
  show ?case
  proof (cases "p = []")
    case False
    with "1.prems" have v: "\<not> decode_fails p" "utf8_valid (drop (snd (decode_rune p)) p)"
      by (simp_all add: utf8_valid_nonempty)
    from decode_ok_split [OF False v(1)]
    obtain r p' where p: "valid_rune r" "p = encode_rune r @ p'" .
    with "1.IH" [OF False v(2)] show ?thesis
      by (simp add: utf8_valid_encode decode_encode)
  qed simp
qed

lemma utf8_valid_encode_all:
  "\<forall>r \<in> set rs. valid_rune r \<Longrightarrow> utf8_valid (concat (map encode_rune rs))"
  by (induction rs) (simp_all add: utf8_valid_encode)

lemma utf8_valid_runes:
  "utf8_valid p \<Longrightarrow> p = concat (map encode_rune (runes p)) \<and> (\<forall>r \<in> set (runes p). valid_rune r)"
proof (induction p rule: utf8_valid.induct)
  case (1 p)
  show ?case
  proof (cases "p = []")
    case False
    with "1.prems" have v: "\<not> decode_fails p" "utf8_valid (drop (snd (decode_rune p)) p)"
      by (simp_all add: utf8_valid_nonempty)
    from "1.IH" [OF False v(2)] show ?thesis
      using encode_decode [OF False v(1)] by (auto simp: runes_nonempty [OF False])
  qed simp
qed

text \<open>The bytes of a multi-byte rune are all above ASCII.\<close>

lemma encode_high_bytes:
  assumes "RuneSelf \<le> r" and "valid_rune r" and "c \<in> set (encode_rune r)"
  shows "RuneSelf \<le> byte_val c"
proof -
  have hi: "RuneSelf \<le> byte_val (byte_of (k + n))" if "0x80 \<le> k" "k + n < 256" for k n
    using that by (simp add: byte_val_of RuneSelf_def)
  have m: "x mod 64 < 64" for x :: nat by simp
  show ?thesis
    using assms m [of r] m [of "r div 64"] m [of "r div 4096"]
    by (auto simp: encode_rune_def Let_def RuneSelf_def valid_rune_def MaxRune_def byte_val_of
        split: if_splits)
qed

end
