(* ===== verification/GoStrings.thy ===== *)
theory GoStrings
  imports Utf8
begin

text \<open>
  The functions of Go's \<open>strings\<close>, \<open>bytes\<close> and \<open>strconv\<close> packages the program calls, on byte strings,
  with the facts the component proofs use. Case mapping outside ASCII needs the Unicode tables;
  they are the parameter \<open>unicode_tables\<close> and no result depends on their content.
\<close>

record unicode_tables =
  uni_lower :: "rune \<Rightarrow> rune"
  uni_upper :: "rune \<Rightarrow> rune"

definition no_unicode :: unicode_tables where
  "no_unicode = \<lparr>uni_lower = id, uni_upper = id\<rparr>"

abbreviation nl :: char where "nl \<equiv> CHR 0x0A"
abbreviation sp :: char where "sp \<equiv> CHR '' ''"
abbreviation backslash :: char where "backslash \<equiv> CHR 0x5C"

subsection \<open>Searching\<close>

definition has_prefix :: "bytes \<Rightarrow> bytes \<Rightarrow> bool" where
  "has_prefix s p \<longleftrightarrow> take (length p) s = p"

text \<open>\<open>strings.Index\<close>: the first position at which \<open>sub\<close> occurs.\<close>

fun str_index :: "bytes \<Rightarrow> bytes \<Rightarrow> nat option" where
  "str_index [] sub = (if sub = [] then Some 0 else None)"
| "str_index (c # s) sub =
     (if has_prefix (c # s) sub then Some 0 else map_option Suc (str_index s sub))"

definition contains :: "bytes \<Rightarrow> bytes \<Rightarrow> bool" where
  "contains s sub \<longleftrightarrow> str_index s sub \<noteq> None"

definition cut :: "bytes \<Rightarrow> bytes \<Rightarrow> bytes \<times> bytes \<times> bool" where
  "cut s sep =
     (case str_index s sep of
        None \<Rightarrow> (s, [], False)
      | Some i \<Rightarrow> (take i s, drop (i + length sep) s, True))"

lemma has_prefix_Nil [simp]: "has_prefix s []"
  by (simp add: has_prefix_def)

lemma has_prefix_append [simp]: "has_prefix (p @ s) p"
  by (simp add: has_prefix_def)

lemma has_prefix_iff: "has_prefix s p \<longleftrightarrow> (\<exists>t. s = p @ t)"
  by (metis append_take_drop_id has_prefix_append has_prefix_def)

lemma has_prefix_Cons [simp]:
  "has_prefix [] (d # p) = False"
  "has_prefix (c # s) (d # p) \<longleftrightarrow> c = d \<and> has_prefix s p"
  by (simp_all add: has_prefix_def)

lemma str_index_Some:
  "str_index s sub = Some i \<Longrightarrow> \<exists>pre post. s = pre @ sub @ post \<and> length pre = i"
proof (induction s sub arbitrary: i rule: str_index.induct)
  case (1 sub)
  then show ?case by (simp split: if_splits)
next
  case (2 c s sub)
  show ?case
  proof (cases "has_prefix (c # s) sub")
    case True
    with "2.prems" show ?thesis by (auto simp: has_prefix_iff)
  next
    case False
    with "2.prems" obtain j where j: "str_index s sub = Some j" "i = Suc j" by auto
    from "2.IH" [OF False j(1)] obtain pre post where "s = pre @ sub @ post" "length pre = j" by blast
    with j have "c # s = (c # pre) @ sub @ post \<and> length (c # pre) = i" by simp
    then show ?thesis by blast
  qed
qed

lemma str_index_None: "str_index s sub = None \<Longrightarrow> s \<noteq> pre @ sub @ post"
proof (induction pre arbitrary: s)
  case Nil
  then show ?case by (cases s) (auto split: if_splits)
next
  case (Cons a pre)
  then show ?case by (cases s) (auto split: if_splits)
qed

lemma contains_iff: "contains s sub \<longleftrightarrow> (\<exists>pre post. s = pre @ sub @ post)"
  unfolding contains_def using str_index_Some str_index_None by (metis not_None_eq)

lemma contains_append_right [simp]: "contains (a @ sub @ b) sub"
  by (auto simp: contains_iff)

text \<open>The index is the least one.\<close>

lemma str_index_least:
  "str_index s sub = Some i \<Longrightarrow> j < i \<Longrightarrow> \<not> has_prefix (drop j s) sub"
proof (induction s sub arbitrary: i j rule: str_index.induct)
  case (1 sub)
  then show ?case by (simp split: if_splits)
next
  case (2 c s sub)
  then show ?case by (cases j) (auto split: if_splits)
qed

lemma str_index_eqI:
  "has_prefix (drop i s) sub \<Longrightarrow> i \<le> length s \<Longrightarrow> (\<And>j. j < i \<Longrightarrow> \<not> has_prefix (drop j s) sub)
     \<Longrightarrow> str_index s sub = Some i"
proof (induction i arbitrary: s)
  case 0
  then show ?case by (cases s; cases sub) auto
next
  case (Suc i)
  then obtain c t where s: "s = c # t" by (cases s) auto
  have "\<not> has_prefix (c # t) sub" using Suc.prems(3) [of 0] s by simp
  moreover have "str_index t sub = Some i"
  proof (rule Suc.IH)
    fix j assume "j < i"
    then show "\<not> has_prefix (drop j t) sub" using Suc.prems(3) [of "Suc j"] s by simp
  qed (use Suc.prems s in auto)
  ultimately show ?case by (simp add: s)
qed

lemma cut_found:
  "cut s sep = (a, b, True) \<Longrightarrow> s = a @ sep @ b"
  unfolding cut_def
  by (auto split: option.splits dest!: str_index_Some)

lemma cut_not_found: "cut s sep = (a, b, False) \<Longrightarrow> \<not> contains s sep \<and> a = s \<and> b = []"
  by (auto simp: cut_def contains_def split: option.splits)

text \<open>Cutting at a one-byte separator.\<close>

lemma str_index_byte:
  "c \<notin> set a \<Longrightarrow> str_index (a @ c # b) [c] = Some (length a)"
  by (induction a) auto

lemma cut_byte: "c \<notin> set a \<Longrightarrow> cut (a @ c # b) [c] = (a, b, True)"
  by (simp add: cut_def str_index_byte)

lemma str_index_byte_None: "str_index s [c] = None \<longleftrightarrow> c \<notin> set s"
  by (induction s) auto

subsection \<open>White space\<close>

text \<open>\<open>unicode.IsSpace\<close>.\<close>

definition is_space :: "rune \<Rightarrow> bool" where
  "is_space r \<longleftrightarrow>
     (9 \<le> r \<and> r \<le> 13) \<or> r = 0x20 \<or> r = 0x85 \<or> r = 0xA0 \<or> r = 0x1680 \<or>
     (0x2000 \<le> r \<and> r \<le> 0x200A) \<or> r = 0x2028 \<or> r = 0x2029 \<or> r = 0x202F \<or> r = 0x205F \<or>
     r = 0x3000"

text \<open>\<open>utf8.DecodeLastRune\<close>: back up to a byte that can start a rune, at most four bytes.\<close>

definition rune_start :: "char \<Rightarrow> bool" where
  "rune_start c \<longleftrightarrow> byte_val c div 64 \<noteq> 2"

fun back_up :: "bytes \<Rightarrow> nat \<Rightarrow> nat \<Rightarrow> nat" where
  "back_up p lim start =
     (if start \<le> lim then lim
      else if rune_start (p ! start) then start
      else back_up p lim (start - 1))"

declare back_up.simps [simp del]

definition decode_last_rune :: "bytes \<Rightarrow> rune \<times> nat" where
  "decode_last_rune p =
     (if p = [] then (RuneError, 0)
      else let c = last p in
        if byte_val c < RuneSelf then (byte_val c, 1)
        else let start = (if length p = 1 then 0 else back_up p (length p - 4) (length p - 2));
                 rs = decode_rune (drop start p)
             in if start + snd rs \<noteq> length p then (RuneError, 1) else rs)"

function trim_left_space :: "bytes \<Rightarrow> bytes" where
  "trim_left_space p =
     (if p \<noteq> [] \<and> is_space (fst (decode_rune p))
      then trim_left_space (drop (snd (decode_rune p)) p) else p)"
  by pat_completeness auto
termination
  by (relation "measure length") auto

declare trim_left_space.simps [simp del]

lemma decode_last_size: "p \<noteq> [] \<Longrightarrow> 0 < snd (decode_last_rune p)"
proof -
  assume p: "p \<noteq> []"
  let ?start = "if length p = 1 then 0 else back_up p (length p - 4) (length p - 2)"
  have bu: "back_up p lim st \<le> max lim st" for lim st
    by (induction p lim st rule: back_up.induct) (subst back_up.simps, auto)
  have "?start < length p" using p bu [of "length p - 4" "length p - 2"] by (cases p) auto
  then have "drop ?start p \<noteq> []" by simp
  from decode_size_pos [OF this] p show ?thesis
    by (auto simp: decode_last_rune_def Let_def)
qed

lemma decode_last_less: "p \<noteq> [] \<Longrightarrow> length p - snd (decode_last_rune p) < length p"
  using decode_last_size [of p] by (cases p) auto

function trim_right_space :: "bytes \<Rightarrow> bytes" where
  "trim_right_space p =
     (if p \<noteq> [] \<and> is_space (fst (decode_last_rune p))
      then trim_right_space (take (length p - snd (decode_last_rune p)) p) else p)"
  by pat_completeness auto
termination
  by (relation "measure length") (auto simp: decode_last_less)

declare trim_right_space.simps [simp del]

definition trim_space :: "bytes \<Rightarrow> bytes" where
  "trim_space s = trim_right_space (trim_left_space s)"

text \<open>\<open>strings.TrimLeft(s, " ")\<close> and \<open>strings.TrimRight(s, cutset)\<close> for cut sets of ASCII bytes.\<close>

definition trim_left_blanks :: "bytes \<Rightarrow> bytes" where
  "trim_left_blanks s = dropWhile (\<lambda>c. c = sp) s"

definition trim_right_set :: "char set \<Rightarrow> bytes \<Rightarrow> bytes" where
  "trim_right_set cs s = rev (dropWhile (\<lambda>c. c \<in> cs) (rev s))"

text \<open>\<open>strings.Fields\<close>: the maximal runs of runes that are not white space.\<close>

function str_fields_from :: "bytes \<Rightarrow> bytes \<Rightarrow> bytes list" where
  "str_fields_from cur p =
     (if p = [] then (if cur = [] then [] else [cur])
      else if is_space (fst (decode_rune p))
        then (if cur = [] then [] else [cur]) @ str_fields_from [] (drop (snd (decode_rune p)) p)
      else str_fields_from (cur @ take (snd (decode_rune p)) p) (drop (snd (decode_rune p)) p))"
  by pat_completeness auto
termination
  by (relation "measure (\<lambda>(cur, p). length p)") auto

declare str_fields_from.simps [simp del]

definition str_fields :: "bytes \<Rightarrow> bytes list" where
  "str_fields s = str_fields_from [] s"

subsection \<open>Lines\<close>

text \<open>\<open>strings.SplitSeq(s, "\n")\<close>: at least one piece, separators dropped.\<close>

fun split_nl :: "bytes \<Rightarrow> bytes list" where
  "split_nl [] = [[]]"
| "split_nl (c # s) =
     (if c = nl then [] # split_nl s
      else (case split_nl s of [] \<Rightarrow> [[c]] | l # ls \<Rightarrow> (c # l) # ls))"

text \<open>\<open>strings.Lines(s)\<close>: each line with its newline, no empty last piece.\<close>

fun lines :: "bytes \<Rightarrow> bytes list" where
  "lines [] = []"
| "lines (c # s) =
     (if c = nl then [nl] # lines s
      else (case lines s of [] \<Rightarrow> [[c]] | l # ls \<Rightarrow> (c # l) # ls))"

lemma concat_lines: "concat (lines s) = s"
  by (induction s) (auto split: list.splits)

fun join :: "bytes \<Rightarrow> bytes list \<Rightarrow> bytes" where
  "join sep [] = []"
| "join sep [x] = x"
| "join sep (x # y # ys) = x @ sep @ join sep (y # ys)"

subsection \<open>Case mapping\<close>

definition lower_rune :: "unicode_tables \<Rightarrow> rune \<Rightarrow> rune" where
  "lower_rune U r =
     (if r < RuneSelf then (if 0x41 \<le> r \<and> r \<le> 0x5A then r + 32 else r) else uni_lower U r)"

definition upper_rune :: "unicode_tables \<Rightarrow> rune \<Rightarrow> rune" where
  "upper_rune U r =
     (if r < RuneSelf then (if 0x61 \<le> r \<and> r \<le> 0x7A then r - 32 else r) else uni_upper U r)"

definition to_lower :: "unicode_tables \<Rightarrow> bytes \<Rightarrow> bytes" where
  "to_lower U s = concat (map (encode_rune \<circ> lower_rune U) (runes s))"

definition to_upper :: "unicode_tables \<Rightarrow> bytes \<Rightarrow> bytes" where
  "to_upper U s = concat (map (encode_rune \<circ> upper_rune U) (runes s))"

subsection \<open>ASCII strings\<close>

definition is_ascii :: "bytes \<Rightarrow> bool" where
  "is_ascii s \<longleftrightarrow> (\<forall>c \<in> set s. byte_val c < RuneSelf)"

declare is_ascii_def [ascii_simps] is_space_def [ascii_simps]

lemma is_ascii_simps [simp]:
  "is_ascii []"
  "is_ascii (c # s) \<longleftrightarrow> byte_val c < RuneSelf \<and> is_ascii s"
  "is_ascii (s @ t) \<longleftrightarrow> is_ascii s \<and> is_ascii t"
  by (auto simp: is_ascii_def)

lemma runes_ascii_Cons: "byte_val c < RuneSelf \<Longrightarrow> runes (c # s) = byte_val c # runes s"
  by (simp add: runes_nonempty decode_rune_ascii)

lemma utf8_valid_ascii_Cons:
  "byte_val c < RuneSelf \<Longrightarrow> utf8_valid (c # s) = utf8_valid s"
  by (auto simp: utf8_valid_nonempty decode_rune_ascii decode_fails_def RuneError_def RuneSelf_def)

lemma runes_ascii: "is_ascii s \<Longrightarrow> runes s = map byte_val s"
  by (induction s) (simp_all add: runes_ascii_Cons)

lemma utf8_valid_ascii: "is_ascii s \<Longrightarrow> utf8_valid s"
  by (induction s) (simp_all add: utf8_valid_ascii_Cons)

lemma encode_ascii: "byte_val c < RuneSelf \<Longrightarrow> encode_rune (byte_val c) = [c]"
  by (simp add: encode_rune_def valid_rune_def MaxRune_def RuneSelf_def)

lemmas ascii_facts = runes_ascii_Cons utf8_valid_ascii_Cons decode_rune_ascii encode_ascii

text \<open>ASCII text in one case is left alone by the mapping to that case.\<close>

definition upper_ascii :: "char \<Rightarrow> bool" where
  "upper_ascii c \<longleftrightarrow> byte_val c < RuneSelf \<and> \<not> (0x61 \<le> byte_val c \<and> byte_val c \<le> 0x7A)"

lemma to_upper_id: "list_all upper_ascii s \<Longrightarrow> to_upper U s = s"
proof (induction s)
  case (Cons c s)
  then have c: "byte_val c < RuneSelf" "upper_rune U (byte_val c) = byte_val c"
    by (auto simp: upper_ascii_def upper_rune_def)
  with Cons show ?case by (simp add: to_upper_def runes_ascii_Cons encode_ascii)
qed (simp add: to_upper_def)

definition lower_ascii :: "char \<Rightarrow> bool" where
  "lower_ascii c \<longleftrightarrow> byte_val c < RuneSelf \<and> \<not> (0x41 \<le> byte_val c \<and> byte_val c \<le> 0x5A)"

lemma to_lower_id: "list_all lower_ascii s \<Longrightarrow> to_lower U s = s"
proof (induction s)
  case (Cons c s)
  then have c: "byte_val c < RuneSelf" "lower_rune U (byte_val c) = byte_val c"
    by (auto simp: lower_ascii_def lower_rune_def)
  with Cons show ?case by (simp add: to_lower_def runes_ascii_Cons encode_ascii)
qed (simp add: to_lower_def)

subsection \<open>Decimal numbers\<close>

definition digit_char :: "int \<Rightarrow> char" where
  "digit_char d = byte_of (48 + nat d)"

text \<open>The decimal digits of a number that is not negative.\<close>

function show_nat :: "int \<Rightarrow> bytes" where
  "show_nat n = (if n < 10 then [digit_char n] else show_nat (n div 10) @ [digit_char (n mod 10)])"
  by pat_completeness auto
termination
  by (relation "measure nat") auto

declare show_nat.simps [simp del]

definition show_int :: "int \<Rightarrow> bytes" where
  "show_int n = (if n < 0 then CHR ''-'' # show_nat (- n) else show_nat n)"

definition is_digit :: "char \<Rightarrow> bool" where
  "is_digit c \<longleftrightarrow> 48 \<le> byte_val c \<and> byte_val c \<le> 57"

definition digit_val :: "char \<Rightarrow> int" where
  "digit_val c = int (byte_val c - 48)"

definition digits_val :: "bytes \<Rightarrow> int" where
  "digits_val s = foldl (\<lambda>n c. n * 10 + digit_val c) 0 s"

abbreviation max_int64 :: int where "max_int64 \<equiv> 9223372036854775807"
abbreviation min_int64 :: int where "min_int64 \<equiv> - 9223372036854775808"

text \<open>\<open>strconv.Atoi\<close> on a 64-bit platform; \<open>None\<close> is a syntax or range error.\<close>

definition atoi :: "bytes \<Rightarrow> int option" where
  "atoi s =
     (let neg = (s \<noteq> [] \<and> hd s = CHR ''-'');
          body = (if s \<noteq> [] \<and> (hd s = CHR ''-'' \<or> hd s = CHR ''+'') then tl s else s);
          v = (if neg then - digits_val body else digits_val body)
      in if body = [] \<or> \<not> list_all is_digit body then None
         else if min_int64 \<le> v \<and> v \<le> max_int64 then Some v
         else None)"

lemma digit_char_facts:
  "0 \<le> d \<Longrightarrow> d < 10 \<Longrightarrow> is_digit (digit_char d) \<and> digit_val (digit_char d) = d"
  by (simp add: is_digit_def digit_val_def digit_char_def byte_val_of)

lemma digits_val_snoc: "digits_val (s @ [c]) = digits_val s * 10 + digit_val c"
  by (simp add: digits_val_def)

lemma show_nat_facts:
  "0 \<le> n \<Longrightarrow> list_all is_digit (show_nat n) \<and> digits_val (show_nat n) = n \<and> show_nat n \<noteq> []"
proof (induction n rule: show_nat.induct)
  case (1 n)
  show ?case
  proof (cases "n < 10")
    case True
    with "1.prems" show ?thesis
      by (subst (1 2 3) show_nat.simps) (simp add: digit_char_facts digits_val_def)
  next
    case False
    with "1.IH" have ih: "list_all is_digit (show_nat (n div 10))"
      "digits_val (show_nat (n div 10)) = n div 10" by simp_all
    have s: "show_nat n = show_nat (n div 10) @ [digit_char (n mod 10)]"
      using False by (subst show_nat.simps) simp
    have "list_all is_digit (show_nat n)" using ih(1) by (simp add: s digit_char_facts)
    moreover have "digits_val (show_nat n) = n"
      by (simp add: s digits_val_snoc ih(2) digit_char_facts)
    ultimately show ?thesis by (simp add: s)
  qed
qed

lemma is_digit_not_sign: "is_digit c \<Longrightarrow> c \<noteq> CHR ''-'' \<and> c \<noteq> CHR ''+''"
  by (auto simp: is_digit_def byte_val_def)

text \<open>Printing a 64-bit integer and reading it back.\<close>

lemma atoi_show_int: "min_int64 \<le> n \<Longrightarrow> n \<le> max_int64 \<Longrightarrow> atoi (show_int n) = Some n"
proof (cases "n < 0")
  case True
  assume "min_int64 \<le> n" "n \<le> max_int64"
  with True show_nat_facts [of "- n"] show ?thesis
    by (simp add: atoi_def show_int_def Let_def)
next
  case False
  assume b: "min_int64 \<le> n" "n \<le> max_int64"
  obtain c s where cs: "show_nat n = c # s" using show_nat_facts [of n] False
    by (cases "show_nat n") auto
  have "is_digit c" using show_nat_facts [of n] cs False by simp
  then have c: "c \<noteq> CHR ''-''" "c \<noteq> CHR ''+''" by (simp_all add: is_digit_not_sign)
  show ?thesis
    using b cs c show_nat_facts [of n] False by (simp add: atoi_def show_int_def Let_def)
qed

subsection \<open>Words and white space\<close>

text \<open>A word: some ASCII bytes, none of them white space.\<close>

definition word_byte :: "char \<Rightarrow> bool" where
  "word_byte c \<longleftrightarrow> byte_val c < RuneSelf \<and> \<not> is_space (byte_val c)"

definition plain_word :: "bytes \<Rightarrow> bool" where
  "plain_word w \<longleftrightarrow> w \<noteq> [] \<and> list_all word_byte w"

declare word_byte_def [ascii_simps] plain_word_def [ascii_simps]

lemma chunk_space_no_word:
  assumes "p \<noteq> []" and "is_space (fst (decode_rune p))" and "word_byte c"
  shows "c \<notin> set (take (snd (decode_rune p)) p)"
proof (cases "decode_fails p")
  case True
  with assms(2) show ?thesis
    by (simp add: decode_fails_def is_space_def RuneError_def)
next
  case False
  note ed = encode_decode [OF assms(1) False]
  show ?thesis
  proof (cases "fst (decode_rune p) < RuneSelf")
    case True
    then have "encode_rune (fst (decode_rune p)) = [byte_of (fst (decode_rune p))]"
      by (simp add: encode_rune_def valid_rune_def MaxRune_def RuneSelf_def)
    moreover have "byte_val (byte_of (fst (decode_rune p))) = fst (decode_rune p)"
      using True by (simp add: byte_val_of RuneSelf_def)
    ultimately show ?thesis using ed assms(2,3) by (auto simp: word_byte_def)
  next
    case False
    then show ?thesis using ed encode_high_bytes [of "fst (decode_rune p)"] assms(3)
      by (metis leD le_less_linear word_byte_def)
  qed
qed

lemma trim_left_keeps: "c \<in> set p \<Longrightarrow> word_byte c \<Longrightarrow> c \<in> set (trim_left_space p)"
proof (induction p rule: trim_left_space.induct)
  case (1 p)
  show ?case
  proof (cases "p \<noteq> [] \<and> is_space (fst (decode_rune p))")
    case True
    then have "c \<notin> set (take (snd (decode_rune p)) p)"
      using chunk_space_no_word 1 by blast
    then have "c \<in> set (drop (snd (decode_rune p)) p)"
      using "1.prems"(1) by (metis Un_iff append_take_drop_id set_append)
    with 1 True show ?thesis by (subst trim_left_space.simps) simp
  next
    case False
    then show ?thesis using 1 by (subst trim_left_space.simps) auto
  qed
qed

lemma last_space_no_word:
  assumes "p \<noteq> []" and "is_space (fst (decode_last_rune p))" and "word_byte c"
  shows "c \<notin> set (drop (length p - snd (decode_last_rune p)) p)"
proof (cases "byte_val (last p) < RuneSelf")
  case True
  then have d: "decode_last_rune p = (byte_val (last p), 1)"
    by (simp add: decode_last_rune_def assms(1))
  have "drop (length p - 1) p = [last p]"
    using assms(1) by (metis append_butlast_last_id append_eq_conv_conj length_butlast)
  with d assms show ?thesis by (auto simp: word_byte_def)
next
  case False
  define st where "st = (if length p = 1 then 0 else back_up p (length p - 4) (length p - 2))"
  have ne: "\<not> is_space RuneError" by (simp add: is_space_def RuneError_def)
  have d: "decode_last_rune p = decode_rune (drop st p)" and sz: "st + snd (decode_rune (drop st p)) = length p"
    using assms(2) False ne
    by (auto simp: decode_last_rune_def Let_def assms(1) st_def split: if_splits)
  have "drop st p \<noteq> []"
  proof
    assume "drop st p = []"
    then show False using d assms(2) ne by simp
  qed
  then have "c \<notin> set (take (snd (decode_rune (drop st p))) (drop st p))"
    using chunk_space_no_word [of "drop st p" c] assms d by simp
  moreover have "length p - snd (decode_rune (drop st p)) = st" using sz by simp
  moreover have "take (snd (decode_rune (drop st p))) (drop st p) = drop st p" using sz by simp
  ultimately show ?thesis using d by simp
qed

lemma trim_right_keeps: "c \<in> set p \<Longrightarrow> word_byte c \<Longrightarrow> c \<in> set (trim_right_space p)"
proof (induction p rule: trim_right_space.induct)
  case (1 p)
  let ?k = "length p - snd (decode_last_rune p)"
  show ?case
  proof (cases "p \<noteq> [] \<and> is_space (fst (decode_last_rune p))")
    case True
    then have "c \<notin> set (drop ?k p)" using last_space_no_word 1 by blast
    then have "c \<in> set (take ?k p)"
      using "1.prems"(1) by (metis Un_iff append_take_drop_id set_append)
    with 1 True show ?thesis by (subst trim_right_space.simps) simp
  next
    case False
    then show ?thesis using 1 by (subst trim_right_space.simps) auto
  qed
qed

lemma trim_keeps: "c \<in> set p \<Longrightarrow> word_byte c \<Longrightarrow> c \<in> set (trim_space p)"
  by (simp add: trim_space_def trim_left_keeps trim_right_keeps)

lemma trim_space_id:
  "p \<noteq> [] \<Longrightarrow> word_byte (hd p) \<Longrightarrow> word_byte (last p) \<Longrightarrow> trim_space p = p"
proof -
  assume a: "p \<noteq> []" "word_byte (hd p)" "word_byte (last p)"
  from a have "trim_left_space p = p"
    by (subst trim_left_space.simps) (cases p; simp add: decode_rune_ascii word_byte_def)
  moreover from a have "trim_right_space p = p"
    by (subst trim_right_space.simps) (simp add: decode_last_rune_def word_byte_def)
  ultimately show ?thesis by (simp add: trim_space_def)
qed

lemma fields_word: "list_all word_byte w \<Longrightarrow> str_fields_from cur (w @ s) = str_fields_from (cur @ w) s"
proof (induction w arbitrary: cur)
  case (Cons c w)
  then have "str_fields_from cur (c # (w @ s)) = str_fields_from (cur @ [c]) (w @ s)"
    by (subst str_fields_from.simps) (simp add: decode_rune_ascii word_byte_def)
  with Cons show ?case by simp
qed simp

lemma fields_blank:
  "cur \<noteq> [] \<Longrightarrow> str_fields_from cur (sp # s) = cur # str_fields_from [] s"
  by (subst str_fields_from.simps)
     (simp add: decode_rune_ascii ascii_simps)

lemma str_fields_join: "list_all plain_word ws \<Longrightarrow> str_fields (join [sp] ws) = ws"
proof (induction ws rule: induct_list012)
  case 1
  then show ?case by (simp add: str_fields_def str_fields_from.simps)
next
  case (2 x)
  then show ?case using fields_word [of x "[]" "[]"]
    by (simp add: str_fields_def plain_word_def str_fields_from.simps)
next
  case (3 x y zs)
  then show ?case using fields_word [of x "[]" "sp # join [sp] (y # zs)"]
    by (simp add: str_fields_def plain_word_def fields_blank)
qed

lemma digit_word: "is_digit c \<Longrightarrow> word_byte c"
  by (auto simp: is_digit_def word_byte_def is_space_def RuneSelf_def)

lemma plain_word_show_int: "plain_word (show_int n)"
proof -
  have "list_all word_byte (show_nat m) \<and> show_nat m \<noteq> []" if "0 \<le> m" for m
    using show_nat_facts [OF that] by (auto simp: list_all_iff digit_word)
  moreover have "word_byte (CHR ''-'')"
    by (simp add: ascii_simps)
  ultimately show ?thesis by (simp add: plain_word_def show_int_def)
qed

end
