(* ===== verification/Args.thy ===== *)
theory Args
  imports GoStrings
begin

text \<open>
  \<open>internal/args\<close>: the shell-style argument parser. \<open>step\<close> is the state machine of the source, one
  rune at a time; \<open>Parse\<close> runs it over \<open>range input\<close> and applies the end-of-input checks in the
  order of the code. The lemmas show what the tokens are: the invariant (no empty token), the
  round trip for rendered arguments, the agreement with splitting at blanks when nothing is
  quoted, and which error each kind of bad input gets.
\<close>

subsection \<open>The parser\<close>

record parser =
  p_args :: "bytes list"
  p_current :: bytes
  p_quoteChar :: rune
  p_inQuote :: bool
  p_escaped :: bool

datatype args_error =
    UnterminatedQuote rune bytes
  | TrailingBackslash bytes

definition new_parser :: parser where
  "new_parser = \<lparr>p_args = [], p_current = [], p_quoteChar = 0, p_inQuote = False, p_escaped = False\<rparr>"

definition flushToken :: "parser \<Rightarrow> parser" where
  "flushToken p =
     (if 0 < length (p_current p)
      then p\<lparr>p_args := p_args p @ [p_current p], p_current := []\<rparr> else p)"

definition write_rune :: "parser \<Rightarrow> rune \<Rightarrow> parser" where
  "write_rune p r = p\<lparr>p_current := p_current p @ encode_rune r\<rparr>"

abbreviation r_backslash :: rune where "r_backslash \<equiv> 0x5C"
abbreviation r_dquote :: rune where "r_dquote \<equiv> 0x22"
abbreviation r_squote :: rune where "r_squote \<equiv> 0x27"
abbreviation r_space :: rune where "r_space \<equiv> 0x20"
abbreviation r_tab :: rune where "r_tab \<equiv> 0x09"

definition step :: "parser \<Rightarrow> rune \<Rightarrow> parser" where
  "step p r =
     (if p_escaped p then (write_rune p r)\<lparr>p_escaped := False\<rparr>
      else if r = r_backslash then p\<lparr>p_escaped := True\<rparr>
      else if p_inQuote p then
        (if r = p_quoteChar p then p\<lparr>p_inQuote := False, p_quoteChar := 0\<rparr>
         else write_rune p r)
      else if r = r_dquote \<or> r = r_squote then p\<lparr>p_inQuote := True, p_quoteChar := r\<rparr>
      else if r = r_space \<or> r = r_tab then flushToken p
      else write_rune p r)"

definition Parse :: "bytes \<Rightarrow> args_error + bytes list" where
  "Parse input =
     (let p = foldl step new_parser (runes input) in
      if p_inQuote p then Inl (UnterminatedQuote (p_quoteChar p) input)
      else if p_escaped p then Inl (TrailingBackslash input)
      else Inr (p_args (flushToken p)))"

subsection \<open>Invariant: no empty token\<close>

definition tokens_nonempty :: "parser \<Rightarrow> bool" where
  "tokens_nonempty p \<longleftrightarrow> [] \<notin> set (p_args p)"

lemma flushToken_nonempty: "tokens_nonempty p \<Longrightarrow> tokens_nonempty (flushToken p)"
  by (auto simp: tokens_nonempty_def flushToken_def)

lemma step_nonempty: "tokens_nonempty p \<Longrightarrow> tokens_nonempty (step p r)"
  using flushToken_nonempty [of p]
  by (auto simp: step_def write_rune_def) (auto simp: tokens_nonempty_def)

interpretation nonempty: stepper step tokens_nonempty
  by unfold_locales (rule step_nonempty)

definition quote_wf :: "parser \<Rightarrow> bool" where
  "quote_wf p \<longleftrightarrow> (if p_inQuote p then p_quoteChar p = r_dquote \<or> p_quoteChar p = r_squote
                else p_quoteChar p = 0)"

interpretation quotes: stepper step quote_wf
  by unfold_locales
     (auto simp: step_def quote_wf_def write_rune_def flushToken_def split: if_splits)

subsection \<open>Runs of ordinary and of escaped runes\<close>

text \<open>Outside quotes and not after a backslash: the state a token starts in.\<close>

definition between :: "bytes list \<Rightarrow> bytes \<Rightarrow> parser" where
  "between ts cur = \<lparr>p_args = ts, p_current = cur, p_quoteChar = 0, p_inQuote = False, p_escaped = False\<rparr>"

definition plain_rune :: "rune \<Rightarrow> bool" where
  "plain_rune r \<longleftrightarrow> r \<notin> {r_backslash, r_dquote, r_squote, r_space, r_tab}"

lemma new_parser_between: "new_parser = between [] []"
  by (simp add: new_parser_def between_def)

lemma step_plain: "plain_rune r \<Longrightarrow> step (between ts cur) r = between ts (cur @ encode_rune r)"
  by (auto simp: step_def between_def plain_rune_def write_rune_def)

lemma step_blank:
  "r = r_space \<or> r = r_tab \<Longrightarrow>
     step (between ts cur) r = between (if cur = [] then ts else ts @ [cur]) []"
  by (auto simp: step_def between_def flushToken_def)

lemma steps_escaped:
  "step (step (between ts cur) r_backslash) r = between ts (cur @ encode_rune r)"
  by (simp add: step_def between_def write_rune_def)

lemma run_plain:
  "\<forall>r \<in> set rs. plain_rune r \<Longrightarrow>
     foldl step (between ts cur) rs = between ts (cur @ concat (map encode_rune rs))"
  by (induction rs arbitrary: cur) (simp_all add: step_plain)

lemma run_escaped:
  "foldl step (between ts cur) (concat (map (\<lambda>r. [r_backslash, r]) rs))
     = between ts (cur @ concat (map encode_rune rs))"
  by (induction rs arbitrary: cur) (simp_all add: steps_escaped)

lemma run_quoted:
  "\<forall>r \<in> set rs. r \<noteq> q \<and> r \<noteq> r_backslash \<Longrightarrow>
     foldl step \<lparr>p_args = ts, p_current = cur, p_quoteChar = q, p_inQuote = True, p_escaped = False\<rparr> rs
     = \<lparr>p_args = ts, p_current = cur @ concat (map encode_rune rs), p_quoteChar = q,
        p_inQuote = True, p_escaped = False\<rparr>"
  by (induction rs arbitrary: cur) (simp_all add: step_def write_rune_def)

subsection \<open>Rendering arguments and reading them back\<close>

text \<open>
  The inverse the fuzz target \<open>FuzzParse_roundtrip\<close> uses: every rune of a token behind a
  backslash, tokens joined by a space.
\<close>

definition escape_token :: "bytes \<Rightarrow> bytes" where
  "escape_token t = concat (map (\<lambda>r. encode_rune r_backslash @ encode_rune r) (runes t))"

definition render :: "bytes list \<Rightarrow> bytes" where
  "render ts = join [sp] (map escape_token ts)"

lemma encode_small: "r < 0x80 \<Longrightarrow> encode_rune r = [byte_of r]"
  by (simp add: encode_rune_def valid_rune_def MaxRune_def)

lemma runes_escape_token:
  assumes "utf8_valid t"
  shows "runes (escape_token t @ q) = concat (map (\<lambda>r. [r_backslash, r]) (runes t)) @ runes q"
proof -
  have "\<forall>r \<in> set rs. valid_rune r \<Longrightarrow>
      runes (concat (map (\<lambda>r. encode_rune r_backslash @ encode_rune r) rs) @ q)
        = concat (map (\<lambda>r. [r_backslash, r]) rs) @ runes q" for rs
    by (induction rs) (simp_all add: runes_encode valid_rune_def MaxRune_def)
  with utf8_valid_runes [OF assms] show ?thesis by (simp add: escape_token_def)
qed

lemma run_escape_token:
  assumes "utf8_valid t"
  shows "foldl step (between ts cur) (runes (escape_token t @ q))
           = foldl step (between ts (cur @ t)) (runes q)"
  using utf8_valid_runes [OF assms]
  by (simp add: runes_escape_token [OF assms] run_escaped)

lemma runes_space: "runes (sp # q) = r_space # runes q"
  by (simp add: runes_ascii_Cons ascii_simps)

lemma run_render:
  assumes "\<forall>t \<in> set us. t \<noteq> [] \<and> utf8_valid t" and "us \<noteq> []"
  shows "foldl step (between ts []) (runes (render us)) = between (ts @ butlast us) (last us)"
  using assms
proof (induction us arbitrary: ts rule: induct_list012)
  case (2 u)
  then show ?case using run_escape_token [of u ts "[]" "[]"] by (simp add: render_def)
next
  case (3 u v us)
  have "render (u # v # us) = escape_token u @ sp # render (v # us)"
    by (simp add: render_def)
  moreover have "foldl step (between (ts @ [u]) []) (runes (render (v # us)))
      = between ((ts @ [u]) @ butlast (v # us)) (last (v # us))"
    using "3.IH"(2) "3.prems" by simp
  ultimately show ?case
    using "3.prems" by (simp add: run_escape_token runes_space step_blank)
qed simp

lemma utf8_valid_escape_token:
  assumes "utf8_valid t"
  shows "utf8_valid (escape_token t)"
proof -
  have "\<forall>r \<in> set rs. valid_rune r \<Longrightarrow>
      utf8_valid (concat (map (\<lambda>r. encode_rune r_backslash @ encode_rune r) rs))" for rs
    by (induction rs) (simp_all add: utf8_valid_encode valid_rune_def MaxRune_def)
  with utf8_valid_runes [OF assms] show ?thesis by (simp add: escape_token_def)
qed

lemma parse_roundtrip:
  assumes "\<forall>t \<in> set ts. t \<noteq> [] \<and> utf8_valid t"
  shows "Parse (render ts) = Inr ts"
proof (cases "ts = []")
  case True
  then show ?thesis
    by (simp add: Parse_def render_def new_parser_def flushToken_def)
next
  case False
  then have "last ts \<noteq> []" using assms by simp
  with run_render [OF assms False, of "[]"] False show ?thesis
    by (simp add: Parse_def new_parser_between between_def flushToken_def)
qed

text \<open>Words of plain bytes need no escape.\<close>

definition plain_token :: "bytes \<Rightarrow> bool" where
  "plain_token t \<longleftrightarrow> t \<noteq> [] \<and> list_all (\<lambda>c. byte_val c < RuneSelf \<and> plain_rune (byte_val c)) t"

lemma run_plain_token:
  "list_all (\<lambda>c. byte_val c < RuneSelf \<and> plain_rune (byte_val c)) t \<Longrightarrow>
     foldl step (between ts cur) (runes (t @ q)) = foldl step (between ts (cur @ t)) (runes q)"
  by (induction t arbitrary: cur) (simp_all add: runes_ascii_Cons step_plain encode_ascii)

lemma run_words:
  "list_all plain_token us \<Longrightarrow> us \<noteq> [] \<Longrightarrow>
     foldl step (between ts []) (runes (join [sp] us)) = between (ts @ butlast us) (last us)"
proof (induction us arbitrary: ts rule: induct_list012)
  case (2 u)
  then show ?case using run_plain_token [of u ts "[]" "[]"] by (simp add: plain_token_def)
next
  case (3 u v us)
  then show ?case
    by (simp add: plain_token_def run_plain_token runes_space step_blank)
qed simp

lemma Parse_words: "list_all plain_token us \<Longrightarrow> Parse (join [sp] us) = Inr us"
proof (cases "us = []")
  case False
  assume a: "list_all plain_token us"
  then have "last us \<noteq> []" using False by (metis last_in_set list_all_iff plain_token_def)
  with run_words [OF a False, of "[]"] False show ?thesis
    by (simp add: Parse_def new_parser_between between_def flushToken_def)
qed (simp add: Parse_def new_parser_def flushToken_def)

text \<open>
  C26. Round trip: any list of non-empty valid UTF-8 tokens, written with every rune escaped and
  joined by single spaces, parses back to exactly that list.
\<close>

theorem parse_render:
  assumes "\<forall>t \<in> set ts. t \<noteq> [] \<and> utf8_valid t"
  shows "Parse (render ts) = Inr ts"
  using assms by (rule parse_roundtrip)

theorem parse_render_witness:
  "Parse (render [''--name'', ''my file.mp4'']) = Inr [''--name'', ''my file.mp4'']"
  by (rule parse_render) (simp add: utf8_valid_ascii ascii_simps)

subsection \<open>Agreement with splitting at blanks\<close>

text \<open>The reference: split at spaces and tabs, drop empty pieces.\<close>

fun blank_words :: "bytes \<Rightarrow> rune list \<Rightarrow> bytes list" where
  "blank_words cur [] = (if cur = [] then [] else [cur])"
| "blank_words cur (r # rs) =
     (if r = r_space \<or> r = r_tab
      then (if cur = [] then [] else [cur]) @ blank_words [] rs
      else blank_words (cur @ encode_rune r) rs)"

definition unquoted :: "rune list \<Rightarrow> bool" where
  "unquoted rs \<longleftrightarrow> (\<forall>r \<in> set rs. r \<noteq> r_backslash \<and> r \<noteq> r_dquote \<and> r \<noteq> r_squote)"

lemma run_unquoted:
  "unquoted rs \<Longrightarrow>
     \<exists>ts' cur'. foldl step (between ts cur) rs = between ts' cur' \<and>
       ts @ blank_words cur rs = ts' @ (if cur' = [] then [] else [cur'])"
proof (induction rs arbitrary: ts cur)
  case Nil
  then show ?case by auto
next
  case (Cons r rs)
  have uq: "unquoted rs" using Cons.prems by (simp add: unquoted_def)
  show ?case
  proof (cases "r = r_space \<or> r = r_tab")
    case True
    with Cons.IH [OF uq, of ts "[]"] Cons.IH [OF uq, of "ts @ [cur]" "[]"] show ?thesis
      by (cases "cur = []") (simp_all add: step_blank)
  next
    case False
    then have "plain_rune r" using Cons.prems by (auto simp: plain_rune_def unquoted_def)
    with False Cons.IH [OF uq, of ts "cur @ encode_rune r"] show ?thesis
      by (simp add: step_plain)
  qed
qed

text \<open>
  With no quote and no backslash in the input, parsing always succeeds and is exactly
  splitting at spaces and tabs.
\<close>

theorem parse_unquoted:
  assumes "unquoted (runes s)"
  shows "Parse s = Inr (blank_words [] (runes s))"
proof -
  obtain ts cur where "foldl step new_parser (runes s) = between ts cur"
    and "blank_words [] (runes s) = ts @ (if cur = [] then [] else [cur])"
    using run_unquoted [OF assms, of "[]" "[]"] by (auto simp: new_parser_between)
  then show ?thesis by (simp add: Parse_def between_def flushToken_def)
qed

theorem parse_unquoted_witness:
  "Parse ''--rf-over 1'' = Inr (blank_words [] (runes ''--rf-over 1''))"
  by (rule parse_unquoted)
     (simp add: unquoted_def runes_ascii ascii_simps)

subsection \<open>Tokens and errors\<close>

text \<open>
  Whatever the input, a successful parse yields no empty token: an empty quoted string
  disappears.
\<close>

theorem parse_no_empty_token: "Parse s = Inr ts \<Longrightarrow> [] \<notin> set ts"
proof -
  assume a: "Parse s = Inr ts"
  have "tokens_nonempty (foldl step new_parser (runes s))"
    by (rule nonempty.run_inv) (simp add: tokens_nonempty_def new_parser_def)
  from flushToken_nonempty [OF this] a show ?thesis
    by (auto simp: Parse_def Let_def tokens_nonempty_def split: if_splits)
qed

theorem parse_no_empty_token_witness: "[] \<notin> set [''--name'', ''x'']"
proof -
  have "Parse (render [''--name'', ''x'']) = Inr [''--name'', ''x'']"
    by (rule parse_roundtrip)
       (simp add: utf8_valid_ascii ascii_simps)
  then show ?thesis by (rule parse_no_empty_token)
qed

lemma run_render_blank:
  assumes "\<forall>t \<in> set ts. t \<noteq> [] \<and> utf8_valid t"
  shows "foldl step new_parser (runes (render ts @ sp # q)) = foldl step (between ts []) (runes q)"
proof (cases "ts = []")
  case True
  then show ?thesis by (simp add: render_def new_parser_between runes_space step_blank)
next
  case False
  have v: "utf8_valid (render us)" if "\<forall>t \<in> set us. t \<noteq> [] \<and> utf8_valid t" for us
    using that
  proof (induction us rule: induct_list012)
    case (2 u)
    then show ?case by (simp add: render_def utf8_valid_escape_token)
  next
    case (3 u v us)
    have "render (u # v # us) = escape_token u @ sp # render (v # us)"
      by (simp add: render_def)
    with 3 show ?case
      by (simp add: utf8_valid_append utf8_valid_escape_token utf8_valid_ascii_Cons
          ascii_simps)
  qed (simp add: render_def)
  have "last ts \<noteq> []" using assms False by simp
  with run_render [OF assms False, of "[]"] False show ?thesis
    by (simp add: runes_append [OF v [OF assms]] runes_space step_blank new_parser_between)
qed

definition quotable :: "rune \<Rightarrow> bytes \<Rightarrow> bool" where
  "quotable q t \<longleftrightarrow> utf8_valid t \<and> q \<notin> set (runes t) \<and> r_backslash \<notin> set (runes t)"

text \<open>
  A quoted token after any rendered arguments: a terminated quote adds its content as one token
  (blanks included, nothing if it is empty), and the same input without the closing quote is
  rejected with that quote character, even if a backslash is still pending at the end.
\<close>

theorem parse_quoted_token:
  assumes "\<forall>t \<in> set ts. t \<noteq> [] \<and> utf8_valid t"
    and "q = r_dquote \<or> q = r_squote" and "quotable q t"
  shows "Parse (render ts @ sp # byte_of q # t @ [byte_of q])
           = Inr (ts @ (if t = [] then [] else [t])) \<and>
         Parse (render ts @ sp # byte_of q # t)
           = Inl (UnterminatedQuote q (render ts @ sp # byte_of q # t)) \<and>
         Parse (render ts @ sp # byte_of q # t @ [backslash])
           = Inl (UnterminatedQuote q (render ts @ sp # byte_of q # t @ [backslash]))"
proof -
  have t: "utf8_valid t" "\<forall>r \<in> set (runes t). r \<noteq> q \<and> r \<noteq> r_backslash"
    using assms(3) by (auto simp: quotable_def)
  have q: "runes (byte_of q # s) = q # runes s" for s
    using assms(2) by (auto simp: runes_ascii_Cons byte_val_of RuneSelf_def)
  have bs: "runes [backslash] = [r_backslash]"
    by (simp add: runes_ascii_Cons ascii_simps)
  have quoted: "foldl step new_parser (runes (render ts @ sp # byte_of q # t @ s))
      = foldl step \<lparr>p_args = ts, p_current = t, p_quoteChar = q, p_inQuote = True, p_escaped = False\<rparr>
          (runes s)" for s
  proof -
    have "step (between ts []) q
        = \<lparr>p_args = ts, p_current = [], p_quoteChar = q, p_inQuote = True, p_escaped = False\<rparr>"
      using assms(2) by (auto simp: step_def between_def)
    then show ?thesis
      using run_quoted [OF t(2)] utf8_valid_runes [OF t(1)]
      by (simp add: run_render_blank [OF assms(1)] q runes_append [OF t(1)])
  qed
  show ?thesis
    using quoted [of "[byte_of q]"] quoted [of "[]"] quoted [of "[backslash]"] assms(2)
    by (auto simp: Parse_def Let_def q bs step_def flushToken_def)
qed

theorem parse_quoted_token_witness:
  "Parse (render [''--name''] @ sp # byte_of r_squote # ''a b'' @ [byte_of r_squote])
     = Inr [''--name'', ''a b'']"
proof -
  have "\<forall>t \<in> set [''--name'']. t \<noteq> [] \<and> utf8_valid t" and "quotable r_squote ''a b''"
    by (simp_all add: quotable_def utf8_valid_ascii runes_ascii ascii_simps)
  from parse_quoted_token [OF this(1) _ this(2)] show ?thesis by simp
qed

end
