(* ===== verification/GoFloat.thy ===== *)
theory GoFloat
  imports GoStrings
begin

text \<open>
  The fragment of Go's \<open>float64\<close> the byte-count formatting uses: IEEE doubles as exact dyadic numbers
  \<open>m * 2^e\<close>, rounding to nearest even of an exact quotient, products and quotients rounded once,
  \<open>strconv.ParseFloat\<close>, truncation to \<open>int64\<close> and the verb \<open>%.1f\<close>. Everything computes on integers.
\<close>

datatype f64 = NaN | Inf bool \<comment> \<open>negative\<close> | Fin int int

subsection \<open>Rounding\<close>

function bitlen :: "int \<Rightarrow> nat" where
  "bitlen n = (if n \<le> 0 then 0 else Suc (bitlen (n div 2)))"
  by pat_completeness auto
termination
  by (relation "measure nat") auto

declare bitlen.simps [simp del]

text \<open>Round half to even of the quotient \<open>a / b\<close> for \<open>a\<close> not negative and \<open>b\<close> positive.\<close>

definition rhe :: "int \<Rightarrow> int \<Rightarrow> int" where
  "rhe a b =
     (let d = a div b; r = a mod b in
      if 2 * r < b then d else if b < 2 * r then d + 1 else if even d then d else d + 1)"

text \<open>\<open>2^k \<le> p / q\<close>.\<close>

definition pow2_le :: "int \<Rightarrow> int \<Rightarrow> int \<Rightarrow> bool" where
  "pow2_le k p q \<longleftrightarrow> (if 0 \<le> k then q * 2 ^ nat k \<le> p else q \<le> p * 2 ^ nat (- k))"

definition log2_floor :: "int \<Rightarrow> int \<Rightarrow> int" where
  "log2_floor p q =
     (let k = int (bitlen p) - int (bitlen q) in if pow2_le k p q then k else k - 1)"

text \<open>The nearest double to \<open>p / q\<close>, both positive: 53 bits of mantissa, exponent at least -1074.\<close>

definition round64 :: "int \<Rightarrow> int \<Rightarrow> f64" where
  "round64 p q =
     (if p = 0 then Fin 0 0
      else let e = max (log2_floor p q - 52) (-1074);
               m = (if 0 \<le> e then rhe p (q * 2 ^ nat e) else rhe (p * 2 ^ nat (- e)) q)
           in if 971 < e \<or> e = 971 \<and> m = 2 ^ 53 then Inf False else Fin m e)"

fun f_neg :: "f64 \<Rightarrow> f64" where
  "f_neg NaN = NaN"
| "f_neg (Inf s) = Inf (\<not> s)"
| "f_neg (Fin m e) = Fin (- m) e"

definition round_signed :: "int \<Rightarrow> int \<Rightarrow> f64" where
  "round_signed p q = (if p < 0 then f_neg (round64 (- p) q) else round64 p q)"

text \<open>\<open>m * 2^e\<close> as a quotient.\<close>

definition num_of :: "int \<Rightarrow> int \<Rightarrow> int" where
  "num_of m e = (if 0 \<le> e then m * 2 ^ nat e else m)"

definition den_of :: "int \<Rightarrow> int" where
  "den_of e = (if 0 \<le> e then 1 else 2 ^ nat (- e))"

definition f_of_int :: "int \<Rightarrow> f64" where
  "f_of_int n = round_signed n 1"

fun f_mul :: "f64 \<Rightarrow> f64 \<Rightarrow> f64" where
  "f_mul (Fin a e) (Fin b f) = round_signed (num_of (a * b) (e + f)) (den_of (e + f))"
| "f_mul NaN y = NaN"
| "f_mul x NaN = NaN"
| "f_mul (Inf s) (Inf t) = Inf (s \<noteq> t)"
| "f_mul (Inf s) (Fin b f) = (if b = 0 then NaN else Inf (s \<noteq> (b < 0)))"
| "f_mul (Fin a e) (Inf t) = (if a = 0 then NaN else Inf (t \<noteq> (a < 0)))"

text \<open>Quotient of finite numbers by a positive one, the only division of the program.\<close>

fun f_div_pos :: "f64 \<Rightarrow> f64 \<Rightarrow> f64" where
  "f_div_pos (Fin a e) (Fin b f) =
     round_signed (num_of a e * den_of f) (den_of e * num_of b f)"
| "f_div_pos x y = NaN"

subsection \<open>To integers and to text\<close>

fun f_is_neg :: "f64 \<Rightarrow> bool" where
  "f_is_neg (Fin m e) = (m < 0)"
| "f_is_neg (Inf s) = s"
| "f_is_neg NaN = False"

text \<open>\<open>f >= 2^63\<close>, the value of \<open>float64(math.MaxInt64)\<close>.\<close>

fun f_ge_2_63 :: "f64 \<Rightarrow> bool" where
  "f_ge_2_63 (Fin m e) = (2 ^ 63 * den_of e \<le> num_of m e)"
| "f_ge_2_63 (Inf s) = (\<not> s)"
| "f_ge_2_63 NaN = False"

text \<open>\<open>int64(f)\<close> for a value in range: truncation towards zero.\<close>

fun f_trunc :: "f64 \<Rightarrow> int" where
  "f_trunc (Fin m e) = sgn m * (\<bar>num_of m e\<bar> div den_of e)"
| "f_trunc _ = 0"

text \<open>The verb \<open>%.1f\<close>: one decimal of the exact value, half to even.\<close>

fun fmt_1f :: "f64 \<Rightarrow> bytes" where
  "fmt_1f (Fin m e) =
     (let t = rhe (10 * \<bar>num_of m e\<bar>) (den_of e) in
      (if m < 0 then ''-'' else []) @ show_nat (t div 10) @ ''.'' @ show_nat (t mod 10))"
| "fmt_1f (Inf s) = (if s then ''-Inf'' else ''+Inf'')"
| "fmt_1f NaN = ''NaN''"

subsection \<open>strconv.ParseFloat\<close>

definition lower_byte :: "char \<Rightarrow> char" where
  "lower_byte c = (if 0x41 \<le> byte_val c \<and> byte_val c \<le> 0x5A then byte_of (byte_val c + 32) else c)"

definition is_hex_letter :: "char \<Rightarrow> bool" where
  "is_hex_letter c \<longleftrightarrow> 0x61 \<le> byte_val (lower_byte c) \<and> byte_val (lower_byte c) \<le> 0x66"

definition parse_special :: "bytes \<Rightarrow> f64 option" where
  "parse_special s =
     (let neg = has_prefix s ''-'';
          body = map lower_byte (if neg \<or> has_prefix s ''+'' then tl s else s)
      in if body = ''inf'' \<or> body = ''infinity'' then Some (Inf neg)
         else if map lower_byte s = ''nan'' then Some NaN
         else None)"

record mant =
  m_val :: int
  m_frac :: nat \<comment> \<open>digits read after the point\<close>
  m_dot :: bool
  m_digits :: bool
  m_und :: bool

text \<open>The mantissa loop of \<open>readFloat\<close>: it stops at the first byte that does not belong.\<close>

fun read_mant :: "bool \<Rightarrow> mant \<Rightarrow> bytes \<Rightarrow> mant \<times> bytes" where
  "read_mant hex st [] = (st, [])"
| "read_mant hex st (c # s) =
     (if c = CHR ''_'' then read_mant hex (st\<lparr>m_und := True\<rparr>) s
      else if c = CHR ''.'' then
        (if m_dot st then (st, c # s) else read_mant hex (st\<lparr>m_dot := True\<rparr>) s)
      else if is_digit c \<or> hex \<and> is_hex_letter c then
        read_mant hex
          (st\<lparr>m_val := m_val st * (if hex then 16 else 10) +
                (if is_digit c then digit_val c else int (byte_val (lower_byte c)) - 0x61 + 10),
              m_frac := (if m_dot st then m_frac st + 1 else m_frac st), m_digits := True\<rparr>) s
      else (st, c # s))"

fun read_exp :: "int \<Rightarrow> bool \<Rightarrow> bytes \<Rightarrow> int \<times> bool \<times> bytes" where
  "read_exp e und [] = (e, und, [])"
| "read_exp e und (c # s) =
     (if c = CHR ''_'' then read_exp e True s
      else if is_digit c then read_exp (if e < 10000 then e * 10 + digit_val c else e) und s
      else (e, und, c # s))"

fun underscores_ok :: "bool \<Rightarrow> char \<Rightarrow> bytes \<Rightarrow> bool" where
  "underscores_ok hex i [] = (i \<noteq> CHR ''_'')"
| "underscores_ok hex i (c # s) =
     (if is_digit c \<or> hex \<and> is_hex_letter c then underscores_ok hex (CHR ''0'') s
      else if c = CHR ''_'' then (if i \<noteq> CHR ''0'' then False else underscores_ok hex (CHR ''_'') s)
      else if i = CHR ''_'' then False
      else underscores_ok hex (CHR ''!'') s)"

definition underscoreOK :: "bytes \<Rightarrow> bool" where
  "underscoreOK s0 =
     (let s = (if has_prefix s0 ''-'' \<or> has_prefix s0 ''+'' then tl s0 else s0);
          base = 2 \<le> length s \<and> s ! 0 = CHR ''0'' \<and> lower_byte (s ! 1) \<in> {CHR ''b'', CHR ''o'', CHR ''x''}
      in if base then underscores_ok (lower_byte (s ! 1) = CHR ''x'') (CHR ''0'') (drop 2 s)
         else underscores_ok False (CHR 0x5E) s)"

text \<open>The exact value \<open>val * base^(-frac) * expbase^(e)\<close> rounded once.\<close>

definition scale_round :: "bool \<Rightarrow> int \<Rightarrow> nat \<Rightarrow> int \<Rightarrow> f64" where
  "scale_round hex v frac e =
     (let eb = (if hex then 2 else 10) in
      round64 (v * eb ^ nat e) ((if hex then 16 else 10) ^ frac * eb ^ nat (- e)))"

text \<open>\<open>ParseFloat(s, 64)\<close>; \<open>None\<close> stands for its syntax and range errors.\<close>

definition parse_float :: "bytes \<Rightarrow> f64 option" where
  "parse_float s =
     (case parse_special s of
        Some f \<Rightarrow> Some f
      | None \<Rightarrow>
          let neg = has_prefix s ''-'';
              s1 = (if neg \<or> has_prefix s ''+'' then tl s else s);
              hex = 2 < length s1 \<and> s1 ! 0 = CHR ''0'' \<and> lower_byte (s1 ! 1) = CHR ''x'';
              (st, s2) = read_mant hex
                 \<lparr>m_val = 0, m_frac = 0, m_dot = False, m_digits = False, m_und = False\<rparr>
                 (if hex then drop 2 s1 else s1)
          in if \<not> m_digits st then None
             else if s2 \<noteq> [] \<and> lower_byte (hd s2) = (if hex then CHR ''p'' else CHR ''e'') then
               (let s3 = tl s2;
                    eneg = has_prefix s3 ''-'';
                    s4 = (if eneg \<or> has_prefix s3 ''+'' then tl s3 else s3)
                in if s4 = [] \<or> \<not> is_digit (hd s4) then None
                   else (case read_exp 0 (m_und st) s4 of
                           (e, und, rest) \<Rightarrow>
                             if rest \<noteq> [] \<or> und \<and> \<not> underscoreOK s then None
                             else (case scale_round hex (m_val st) (m_frac st)
                                          (if eneg then - e else e) of
                                     Inf _ \<Rightarrow> None
                                   | f \<Rightarrow> Some (if neg then f_neg f else f))))
             else if hex then None
             else if s2 \<noteq> [] \<or> m_und st \<and> \<not> underscoreOK s then None
             else (case scale_round hex (m_val st) (m_frac st) 0 of
                     Inf _ \<Rightarrow> None
                   | f \<Rightarrow> Some (if neg then f_neg f else f)))"

subsection \<open>Exactness on small integers\<close>

lemma bitlen_bounds: "n < 2 ^ bitlen n \<and> (0 < n \<longrightarrow> 2 ^ (bitlen n - 1) \<le> n)"
proof (induction n rule: bitlen.induct)
  case (1 n)
  show ?case
  proof (cases "n \<le> 0")
    case True
    then show ?thesis by (simp add: bitlen.simps)
  next
    case False
    with "1.IH" have ih: "n div 2 < 2 ^ bitlen (n div 2)"
      "0 < n div 2 \<longrightarrow> 2 ^ (bitlen (n div 2) - 1) \<le> n div 2" by auto
    have bl: "bitlen n = Suc (bitlen (n div 2))" using False by (subst bitlen.simps) simp
    show ?thesis
    proof (cases "n div 2 = 0")
      case True
      then show ?thesis using False bl ih(1) by (simp add: bitlen.simps)
    next
      case nz: False
      then have "0 < n div 2" using False by simp
      then obtain k where k: "bitlen (n div 2) = Suc k" using bitlen.simps [of "n div 2"] by auto
      with ih nz bl False show ?thesis by auto
    qed
  qed
qed

lemma rhe_exact: "0 < b \<Longrightarrow> rhe (a * b) b = a"
  by (simp add: rhe_def)

text \<open>The leading exponent of an integer with 53 significant bits.\<close>

lemma log2_floor_shift:
  assumes "0 < n" "n < 2 ^ 53" "0 < q"
  shows "log2_floor (n * 2 ^ b * q) q \<le> 52 + int b"
proof -
  let ?p = "n * 2 ^ b * q"
  let ?k = "int (bitlen ?p) - int (bitlen q)"
  have "2 ^ (bitlen ?p - 1) \<le> ?p" using bitlen_bounds [of ?p] assms by simp
  also have "\<dots> < 2 ^ 53 * 2 ^ b * 2 ^ bitlen q"
  proof (rule mult_strict_mono)
    show "n * 2 ^ b < 2 ^ 53 * 2 ^ b" using assms by simp
  qed (use bitlen_bounds [of q] assms in simp_all)
  finally have "(2::int) ^ (bitlen ?p - 1) < 2 ^ (53 + b + bitlen q)" by (simp add: power_add)
  then have "bitlen ?p - 1 < 53 + b + bitlen q"
    by (rule power_less_imp_less_exp [rotated]) simp
  then have k: "?k \<le> 53 + int b" by simp
  show ?thesis
  proof (cases "pow2_le ?k ?p q")
    case True
    have "?k \<noteq> 53 + int b"
    proof
      assume k: "?k = 53 + int b"
      have "nat (53 + int b) = 53 + b" by simp
      with True have "(q * 2 ^ b) * 2 ^ 53 \<le> (q * 2 ^ b) * n"
        unfolding pow2_le_def k by (simp add: power_add ac_simps)
      then show False using assms by simp
    qed
    with k True show ?thesis by (simp add: log2_floor_def)
  next
    case False
    with k show ?thesis by (simp add: log2_floor_def Let_def)
  qed
qed

lemma round64_exact_shift:
  assumes "0 \<le> n" "n < 2 ^ 53" "0 < q" "b \<le> 900"
  shows "\<exists>m e. round64 (n * 2 ^ b * q) q = Fin m e \<and> num_of m e = n * 2 ^ b * den_of e \<and> 0 \<le> m"
proof (cases "n = 0")
  case True
  then show ?thesis by (simp add: round64_def num_of_def)
next
  case False
  let ?v = "n * 2 ^ b"
  define e where "e = max (log2_floor (?v * q) q - 52) (-1074)"
  have e: "e \<le> int b" using log2_floor_shift [of n q b] assms False by (simp add: e_def)
  show ?thesis
  proof (cases "0 \<le> e")
    case True
    have "nat e \<le> b" using e by simp
    then have pw: "(2::int) ^ b = 2 ^ (b - nat e) * 2 ^ nat e" by (simp flip: power_add)
    then have vq: "?v * q = n * 2 ^ (b - nat e) * (q * 2 ^ nat e)" by (simp only: ac_simps)
    have "rhe (?v * q) (q * 2 ^ nat e) = n * 2 ^ (b - nat e)"
      unfolding vq by (rule rhe_exact) (use assms(3) in simp)
    then have "round64 (?v * q) q = Fin (n * 2 ^ (b - nat e)) e"
      using True e False assms(3,4) by (simp add: round64_def Let_def flip: e_def)
    moreover have "num_of (n * 2 ^ (b - nat e)) e = ?v * den_of e"
      using True by (simp add: num_of_def den_of_def pw)
    ultimately show ?thesis using assms(1) by fastforce
  next
    case neg: False
    have "rhe (?v * q * 2 ^ nat (- e)) q = ?v * 2 ^ nat (- e)"
      using rhe_exact [OF assms(3), of "?v * 2 ^ nat (- e)"] by (simp add: ac_simps)
    then have "round64 (?v * q) q = Fin (?v * 2 ^ nat (- e)) e"
      using neg False assms(3) by (simp add: round64_def Let_def flip: e_def)
    moreover have "num_of (?v * 2 ^ nat (- e)) e = ?v * den_of e"
      using neg by (simp add: num_of_def den_of_def)
    ultimately show ?thesis using assms(1) by fastforce
  qed
qed

text \<open>A double that denotes a given integer.\<close>

fun denotes :: "f64 \<Rightarrow> int \<Rightarrow> bool" where
  "denotes (Fin m e) n = (num_of m e = n * den_of e)"
| "denotes _ n = False"

lemma den_of_pos [simp]: "0 < den_of e"
  by (simp add: den_of_def)

lemma den_of_nz [simp]: "den_of e \<noteq> 0" "0 \<le> den_of e"
  by (simp_all add: den_of_def)

lemma denotes_of_int:
  "b \<le> 900 \<Longrightarrow> 0 \<le> n \<Longrightarrow> n < 2 ^ 53 \<Longrightarrow> denotes (f_of_int (n * 2 ^ b)) (n * 2 ^ b)"
proof -
  assume that: "b \<le> 900" and n: "0 \<le> n" "n < 2 ^ 53"
  then have "\<not> n * 2 ^ b < 0" by (simp add: not_less)
  with round64_exact_shift [of n 1 b] that n show ?thesis
    by (auto simp: f_of_int_def round_signed_def)
qed

lemma num_den_add:
  "num_of (a * b) (e + f) * (den_of e * den_of f) = num_of a e * num_of b f * den_of (e + f)"
proof -
  have pw: "(2::int) ^ nat x * 2 ^ nat y = 2 ^ nat (x + y)" if "0 \<le> x" "0 \<le> y" for x y :: int
    using that by (simp add: nat_add_distrib power_add)
  consider "0 \<le> e" "0 \<le> f" | "0 \<le> e" "f < 0" "0 \<le> e + f" | "0 \<le> e" "f < 0" "e + f < 0"
    | "e < 0" "0 \<le> f" "0 \<le> e + f" | "e < 0" "0 \<le> f" "e + f < 0" | "e < 0" "f < 0" by linarith
  then show ?thesis
  proof cases
    case 1
    then show ?thesis by (simp add: num_of_def den_of_def pw ac_simps)
  next
    case 2
    then show ?thesis using pw [of "e + f" "- f"] by (simp add: num_of_def den_of_def ac_simps)
  next
    case 3
    then show ?thesis using pw [of "- e - f" "e"] by (simp add: num_of_def den_of_def ac_simps)
  next
    case 4
    then show ?thesis using pw [of "e + f" "- e"] by (simp add: num_of_def den_of_def ac_simps)
  next
    case 5
    then show ?thesis using pw [of "- e - f" "f"] by (simp add: num_of_def den_of_def ac_simps)
  next
    case 6
    then show ?thesis using pw [of "- e" "- f"] by (simp add: num_of_def den_of_def ac_simps)
  qed
qed

lemma denotes_mul:
  assumes "denotes x a" "denotes y b" "a * b = n * 2 ^ k" "0 \<le> n" "n < 2 ^ 53" "k \<le> 900"
  shows "denotes (f_mul x y) (a * b)"
proof -
  obtain mx ex my ey where x: "x = Fin mx ex" "num_of mx ex = a * den_of ex"
    and y: "y = Fin my ey" "num_of my ey = b * den_of ey"
    using assms(1,2) by (cases x; cases y) auto
  have "num_of (mx * my) (ex + ey) * (den_of ex * den_of ey)
      = (a * b * den_of (ex + ey)) * (den_of ex * den_of ey)"
    using num_den_add [of mx my ex ey] x(2) y(2) by (simp add: ac_simps)
  then have v: "num_of (mx * my) (ex + ey) = n * 2 ^ k * den_of (ex + ey)"
    using assms(3) den_of_pos [of ex] den_of_pos [of ey]
    by (metis mult_cancel_right mult_eq_0_iff order_less_irrefl)
  have "0 \<le> n * 2 ^ k * den_of (ex + ey)"
    using assms(4) by (intro mult_nonneg_nonneg) (simp_all add: less_imp_le)
  with round64_exact_shift [OF assms(4,5) den_of_pos [of "ex + ey"] assms(6)] show ?thesis
    by (auto simp: x y v round_signed_def assms(3))
qed


subsection \<open>Reading back what was printed\<close>

lemma read_mant_digits:
  "list_all is_digit s \<Longrightarrow>
     read_mant False st (s @ r) =
       read_mant False (st\<lparr>m_val := foldl (\<lambda>n c. n * 10 + digit_val c) (m_val st) s,
                           m_frac := (if m_dot st then m_frac st + length s else m_frac st),
                           m_digits := m_digits st \<or> s \<noteq> []\<rparr>) r"
proof (induction s arbitrary: st)
  case (Cons c s)
  then have "c \<noteq> CHR ''_''" "c \<noteq> CHR ''.''" by (auto simp: is_digit_def byte_val_def)
  with Cons show ?case by simp
qed simp

lemma digit_not_letter: "is_digit c \<Longrightarrow> lower_byte c = c"
  by (simp add: is_digit_def lower_byte_def)

lemma special_digits: "is_digit c \<Longrightarrow> parse_special (c # s) = None"
  using is_digit_not_sign [of c] digit_not_letter [of c]
  by (auto simp: parse_special_def Let_def is_digit_def byte_val_def)

text \<open>A number without sign, base prefix, underscore and exponent.\<close>

lemma parse_float_plain:
  assumes "is_digit c" and "\<not> (0 < length s \<and> lower_byte (hd s) = CHR ''x'')"
    and "read_mant False \<lparr>m_val = 0, m_frac = 0, m_dot = False, m_digits = False, m_und = False\<rparr> (c # s)
      = (\<lparr>m_val = v, m_frac = k, m_dot = d, m_digits = True, m_und = False\<rparr>, [])"
    and "round64 v (10 ^ k) = Fin m e"
  shows "parse_float (c # s) = Some (Fin m e)"
proof -
  have neg: "has_prefix (c # s) ''-'' = False" "has_prefix (c # s) ''+'' = False"
    using is_digit_not_sign [OF assms(1)] by simp_all
  have hex: "(2 < length (c # s) \<and> (c # s) ! 0 = CHR ''0'' \<and> lower_byte ((c # s) ! 1) = CHR ''x'')
      = False"
    using assms(2) by (cases s) auto
  have sr: "scale_round False v k 0 = Fin m e" by (simp add: scale_round_def assms(4))
  show ?thesis
    unfolding parse_float_def special_digits [OF assms(1)] Let_def neg simp_thms if_False option.case hex
      assms(3) prod.case
    by (simp add: sr)
qed

text \<open>Decimal digits, with or without a fraction \<open>.0\<close>, denote their value.\<close>

lemma parse_float_int:
  assumes "0 \<le> n" "n < 2 ^ 50"
  shows "\<exists>x. parse_float (show_nat n) = Some x \<and> denotes x n"
    and "\<exists>x. parse_float (show_nat n @ ''.0'') = Some x \<and> denotes x n"
proof -
  obtain c s where cs: "show_nat n = c # s" using show_nat_facts [OF assms(1)]
    by (cases "show_nat n") auto
  have dg: "list_all is_digit (c # s)" "digits_val (c # s) = n"
    using show_nat_facts [OF assms(1)] cs by simp_all
  have nx: "\<not> (0 < length (s @ r) \<and> lower_byte (hd (s @ r)) = CHR ''x'')" if "r = [] \<or> r = ''.0''" for r
    using dg that by (cases s) (auto simp: lower_byte_def is_digit_def byte_val_def)
  have rm: "read_mant False \<lparr>m_val = 0, m_frac = 0, m_dot = False, m_digits = False, m_und = False\<rparr> (c # s)
      = (\<lparr>m_val = n, m_frac = 0, m_dot = False, m_digits = True, m_und = False\<rparr>, [])"
    using read_mant_digits [OF dg(1), of _ "[]"] dg(2) by (simp add: digits_val_def)
  have rm0: "read_mant False \<lparr>m_val = 0, m_frac = 0, m_dot = False, m_digits = False, m_und = False\<rparr>
       (c # s @ ''.0'')
      = (\<lparr>m_val = n * 10, m_frac = 1, m_dot = True, m_digits = True, m_und = False\<rparr>, [])"
    using dg(2) read_mant_digits [OF dg(1), of _ "''.0''"]
    by (simp add: digits_val_def is_digit_def digit_val_def byte_val_def)
  have c: "is_digit c" using dg by simp
  obtain m e where r: "round64 n 1 = Fin m e" "num_of m e = n * den_of e"
    using round64_exact_shift [of n 1 0] assms by auto
  then show "\<exists>x. parse_float (show_nat n) = Some x \<and> denotes x n"
    using parse_float_plain [OF c _ rm] nx [of "[]"] by (simp add: cs)
  obtain m' e' where r': "round64 (n * 10) 10 = Fin m' e'" "num_of m' e' = n * den_of e'"
    using round64_exact_shift [of n 10 0] assms by auto
  then show "\<exists>x. parse_float (show_nat n @ ''.0'') = Some x \<and> denotes x n"
    using parse_float_plain [OF c _ rm0] nx [of "''.0''"] by (simp add: cs)
qed

end
