(* ===== verification/Parsing.thy ===== *)
theory Parsing
  imports GoFloat
begin

text \<open>
  The text half of \<open>internal/parsing\<close>: the action summary (\<open>ParseActionSummary\<close>,
  \<open>reclaimedMetrics\<close>), sizes in SI units read (\<open>parseHumanBytes\<close>) and printed (\<open>HumanBytes\<close>).
\<close>

subsection \<open>Reading sizes\<close>

text \<open>The map \<open>byteUnitMultipliers\<close>.\<close>

definition byteUnitMultipliers :: "bytes \<Rightarrow> int option" where
  "byteUnitMultipliers = map_of
     [(''B'', 1),
      (''KB'', 1000), (''K'', 1000),
      (''MB'', 1000000), (''M'', 1000000),
      (''GB'', 1000000000), (''G'', 1000000000),
      (''TB'', 1000000000000), (''T'', 1000000000000),
      (''PB'', 1000000000000000), (''P'', 1000000000000000),
      (''EB'', 1000000000000000000), (''E'', 1000000000000000000)]"

definition floatToInt64 :: "f64 \<Rightarrow> int" where
  "floatToInt64 f = (if f = NaN \<or> f_is_neg f \<or> f_ge_2_63 f then 0 else f_trunc f)"

definition parseHumanBytes :: "unicode_tables \<Rightarrow> bytes \<Rightarrow> int" where
  "parseHumanBytes U s =
     (let fs = str_fields s in
      if length fs \<noteq> 2 then 0
      else (case parse_float (fs ! 0) of
              None \<Rightarrow> 0
            | Some num \<Rightarrow>
                (case byteUnitMultipliers (to_upper U (fs ! 1)) of
                   None \<Rightarrow> 0
                 | Some mult \<Rightarrow> floatToInt64 (f_mul num (f_of_int mult)))))"

subsection \<open>The action summary\<close>

record ActionSummary =
  as_RawLine :: bytes
  as_Files :: int
  as_ReclaimedBytes :: int
  as_Estimated :: bool
  as_Matched :: bool

definition zero_summary :: ActionSummary where
  "zero_summary = \<lparr>as_RawLine = [], as_Files = 0, as_ReclaimedBytes = 0, as_Estimated = False,
     as_Matched = False\<rparr>"

definition reclaimedMetrics :: "unicode_tables \<Rightarrow> bytes \<Rightarrow> int \<times> int \<times> bool" where
  "reclaimedMetrics U rawLine =
     (let fs = str_fields rawLine in
      if length fs < 7 then (0, 0, False)
      else let files = (case atoi (fs ! 1) of Some n \<Rightarrow> if 0 \<le> n then n else 0 | None \<Rightarrow> 0) in
        if fs ! 5 = ''up'' \<and> fs ! 6 = ''to'' then
          (if length fs < 7 + 2 then (files, 0, True)
           else (files, parseHumanBytes U (fs ! 7 @ '' '' @ fs ! 8), True))
        else (files, parseHumanBytes U (fs ! 5 @ '' '' @ fs ! 6), False))"

text \<open>The loop over the lines; \<open>lastNonEmpty\<close> is its only other state.\<close>

fun summary_loop :: "unicode_tables \<Rightarrow> bytes \<Rightarrow> bytes list \<Rightarrow> ActionSummary" where
  "summary_loop U lastNonEmpty [] =
     (if as_RawLine zero_summary = [] \<and> lastNonEmpty \<noteq> []
      then zero_summary\<lparr>as_RawLine := lastNonEmpty\<rparr> else zero_summary)"
| "summary_loop U lastNonEmpty (line # ls) =
     (let trimmed = trim_space line in
      if trimmed = [] then summary_loop U lastNonEmpty ls
      else (case str_index line ''Processed'' of
              Some idx \<Rightarrow>
                if contains line ''reclaimed'' then
                  let raw = trim_space (drop idx line) in
                  (case reclaimedMetrics U raw of (files, reclaimed, est) \<Rightarrow>
                     \<lparr>as_RawLine = raw, as_Files = files, as_ReclaimedBytes = reclaimed,
                      as_Estimated = est, as_Matched = True\<rparr>)
                else summary_loop U trimmed ls
            | None \<Rightarrow> summary_loop U trimmed ls))"

definition ParseActionSummary :: "unicode_tables \<Rightarrow> bytes \<Rightarrow> ActionSummary" where
  "ParseActionSummary U stdout = summary_loop U [] (split_nl stdout)"

subsection \<open>Printing sizes\<close>

definition humanByteSuffixes :: "bytes list" where
  "humanByteSuffixes = [''KB'', ''MB'', ''GB'', ''TB'', ''PB'', ''EB'']"

text \<open>The scaling loop: \<open>x\<close> is the running quotient, \<open>dv\<close> the divisor, \<open>ex\<close> the suffix index.\<close>

function human_loop :: "int \<Rightarrow> int \<Rightarrow> nat \<Rightarrow> int \<times> nat" where
  "human_loop x dv ex =
     (if 1000 \<le> x \<and> ex < length humanByteSuffixes - 1
      then human_loop (x div 1000) (dv * 1000) (ex + 1) else (dv, ex))"
  by pat_completeness auto
termination
  by (relation "measure (\<lambda>(x, dv, ex). nat x)") auto

declare human_loop.simps [simp del]

definition HumanBytes :: "int \<Rightarrow> bytes" where
  "HumanBytes n =
     (if n < 1000 then show_int n @ '' B''
      else case human_loop (n div 1000) 1000 0 of (dv, ex) \<Rightarrow>
        fmt_1f (f_div_pos (f_of_int n) (f_of_int dv)) @ '' '' @ humanByteSuffixes ! ex)"

subsection \<open>Reading back what was printed\<close>

lemma denotes_trunc: "denotes x n \<Longrightarrow> 0 \<le> n \<Longrightarrow> n \<le> max_int64 \<Longrightarrow> floatToInt64 x = n"
proof -
  assume d: "denotes x n" and n: "0 \<le> n" "n \<le> max_int64"
  then obtain m e where x: "x = Fin m e" and v: "num_of m e = n * den_of e" by (cases x) auto
  have "0 \<le> num_of m e" using v n den_of_pos [of e] by (simp add: less_imp_le)
  then have m: "0 \<le> m" by (simp add: num_of_def zero_le_mult_iff split: if_splits)
  have "\<not> 2 ^ 63 * den_of e \<le> n * den_of e" using n by simp
  moreover have "sgn m * (\<bar>n * den_of e\<bar> div den_of e) = n"
  proof (cases "m = 0")
    case True
    then have "n = 0" using v den_of_pos [of e] by (simp add: num_of_def split: if_splits)
    then show ?thesis by simp
  next
    case False
    have "\<bar>n * den_of e\<bar> = n * den_of e" using n by (simp add: less_imp_le)
    then show ?thesis using m False by simp
  qed
  ultimately show ?thesis using m by (simp add: floatToInt64_def x v)
qed

lemma plain_word_nat: "0 \<le> n \<Longrightarrow> plain_word (show_nat n)"
  using show_nat_facts [of n] by (auto simp: plain_word_def list_all_iff digit_word)

lemma fields_pair: "plain_word a \<Longrightarrow> plain_word b \<Longrightarrow> str_fields (a @ sp # b) = [a, b]"
  using str_fields_join [of "[a, b]"] by simp

text \<open>
  A size \<open>k\<close> times a unit, printed with or without the fraction \<open>.0\<close>, reads back exactly, when the
  product has at most 53 significant bits.
\<close>

lemma parse_size:
  assumes "0 \<le> k" "k < 2 ^ 50" "tail = [] \<or> tail = ''.0''"
    and "plain_word u" "byteUnitMultipliers (to_upper U u) = Some mult"
    and "mult = c * 2 ^ j" "0 \<le> c" "c < 2 ^ 53" "j \<le> 900" "k * c < 2 ^ 53" "k * mult \<le> max_int64"
  shows "parseHumanBytes U (show_nat k @ tail @ sp # u) = k * mult"
proof -
  have "plain_word (show_nat k @ tail)"
    using plain_word_nat [OF assms(1)] assms(3)
    by (auto simp: ascii_simps)
  then have f: "str_fields (show_nat k @ tail @ sp # u) = [show_nat k @ tail, u]"
    using fields_pair [OF _ assms(4), of "show_nat k @ tail"] by simp
  obtain x where x: "parse_float (show_nat k @ tail) = Some x" "denotes x k"
    using parse_float_int [OF assms(1,2)] assms(3) by auto
  have "denotes (f_of_int mult) mult"
    using denotes_of_int [OF assms(9,7,8)] by (simp add: assms(6))
  then have "denotes (f_mul x (f_of_int mult)) (k * mult)"
    using denotes_mul [OF x(2), of "f_of_int mult" mult "k * c" j] assms by (simp add: ac_simps)
  then have "floatToInt64 (f_mul x (f_of_int mult)) = k * mult"
    using assms by (intro denotes_trunc) simp_all
  then show ?thesis by (simp add: parseHumanBytes_def f x(1) assms(5))
qed

lemma unit_word:
  "u \<in> {''B'', ''KB'', ''MB'', ''GB'', ''TB'', ''PB'', ''EB''} \<Longrightarrow> to_upper U u = u \<and> plain_word u"
  by (auto simp: to_upper_id upper_ascii_def ascii_simps plain_word_def word_byte_def
      is_space_def)

subsection \<open>The scale of a printed size\<close>

text \<open>What the scaling loop returns: the largest unit that fits, \<open>EB\<close> at most.\<close>

lemma human_loop_spec:
  assumes "human_loop x dv ex = (dv', ex')" "0 < dv" "1 \<le> x" "ex \<le> 5"
  shows "ex \<le> ex' \<and> ex' \<le> 5 \<and> dv' = dv * 1000 ^ (ex' - ex) \<and> 1000 ^ (ex' - ex) \<le> x \<and>
    (ex' < 5 \<longrightarrow> x < 1000 ^ (ex' - ex + 1))"
  using assms
proof (induction x dv ex rule: human_loop.induct)
  case (1 x dv ex)
  show ?case
  proof (cases "1000 \<le> x \<and> ex < length humanByteSuffixes - 1")
    case True
    then have "human_loop (x div 1000) (dv * 1000) (ex + 1) = (dv', ex')"
      using "1.prems"(1) by (subst (asm) human_loop.simps) simp
    moreover have "ex + 1 \<le> 5" using True by (simp add: humanByteSuffixes_def)
    ultimately have ih: "ex + 1 \<le> ex'" "ex' \<le> 5" "dv' = dv * 1000 * 1000 ^ (ex' - (ex + 1))"
      "1000 ^ (ex' - (ex + 1)) \<le> x div 1000"
      "ex' < 5 \<longrightarrow> x div 1000 < 1000 ^ (ex' - (ex + 1) + 1)"
      using "1.IH" [OF True] True "1.prems" by auto
    define d where "d = ex' - (ex + 1)"
    have d: "ex' - ex = Suc d" using ih(1) by (simp add: d_def)
    have "1000 ^ d * 1000 \<le> x" using ih(4) by (simp add: d_def)
    moreover have "x < 1000 ^ (d + 1) * 1000" if "ex' < 5"
      using ih(5) that by (simp add: d_def)
    moreover have "dv' = dv * 1000 * 1000 ^ d" using ih(3) by (simp only: d_def)
    ultimately show ?thesis using ih(1,2) by (simp add: d)
  next
    case False
    then have "dv' = dv \<and> ex' = ex" using "1.prems"(1) by (subst (asm) human_loop.simps) auto
    then show ?thesis using False "1.prems" by (auto simp: humanByteSuffixes_def)
  qed
qed

lemma human_unit:
  assumes "human_loop (n div 1000) 1000 0 = (dv, ex)" "1000 \<le> n"
  shows "ex \<le> 5" "dv = 1000 ^ (ex + 1)" "dv \<le> n" "ex < 5 \<Longrightarrow> n < 1000 * dv"
proof -
  have s: "ex \<le> 5" "dv = 1000 * 1000 ^ ex" "1000 ^ ex \<le> n div 1000"
    "ex < 5 \<longrightarrow> n div 1000 < 1000 ^ (ex + 1)"
    using human_loop_spec [OF assms(1)] assms(2) by auto
  then show "ex \<le> 5" "dv = 1000 ^ (ex + 1)" by simp_all
  have "1000 * 1000 ^ ex \<le> n" using s(3) by simp
  then show "dv \<le> n" using s(2) by simp
  show "n < 1000 * dv" if "ex < 5" using s that by simp
qed

text \<open>The suffix with index \<open>ex\<close> stands for \<open>1000 ^ (ex + 1)\<close>, in both tables.\<close>

lemma suffix_unit:
  "ex \<le> 5 \<Longrightarrow> to_upper U (humanByteSuffixes ! ex) = humanByteSuffixes ! ex \<and>
     plain_word (humanByteSuffixes ! ex) \<and>
     byteUnitMultipliers (humanByteSuffixes ! ex) = Some (1000 ^ (ex + 1))"
proof -
  assume "ex \<le> 5"
  then consider "ex = 0" | "ex = 1" | "ex = 2" | "ex = 3" | "ex = 4" | "ex = 5" by linarith
  then show ?thesis
    by cases (simp_all add: humanByteSuffixes_def unit_word byteUnitMultipliers_def)
qed

lemma thousand_pow: "(1000::int) ^ n = 125 ^ n * 2 ^ (3 * n)"
proof -
  have "(1000::int) ^ n = (125 * 8) ^ n" by simp
  also have "\<dots> = 125 ^ n * 8 ^ n" by (rule power_mult_distrib)
  also have "(8::int) ^ n = 2 ^ (3 * n)" by (simp add: power_mult)
  finally show ?thesis .
qed

text \<open>Up to 999 units of \<open>1000 ^ n\<close> bytes have at most 53 significant bits.\<close>

lemma units_fit:
  fixes k :: int
  assumes "0 \<le> k" "k < 1000" "n \<le> 6"
  shows "(125::int) ^ n \<le> 125 ^ 6" "k * 125 ^ n < 2 ^ 53"
proof -
  show p: "(125::int) ^ n \<le> 125 ^ 6" using assms(3) by (intro power_increasing) simp_all
  have "k * 125 ^ n \<le> 1000 * 125 ^ 6" using assms p by (intro mult_mono) simp_all
  also have "\<dots> < (2::int) ^ 53" by simp
  finally show "k * 125 ^ n < 2 ^ 53" .
qed

lemma fmt_whole:
  assumes "0 \<le> k" "k < 1000" "n \<le> 6"
  shows "fmt_1f (f_div_pos (f_of_int (k * 1000 ^ n)) (f_of_int (1000 ^ n))) = show_nat k @ ''.0''"
proof -
  note p = units_fit [OF assms]
  have "denotes (f_of_int (k * 1000 ^ n)) (k * 1000 ^ n)"
    using denotes_of_int [of "3 * n" "k * 125 ^ n"] assms p by (simp add: thousand_pow mult.assoc)
  moreover have "denotes (f_of_int (1000 ^ n)) (1000 ^ n)"
    using denotes_of_int [of "3 * n" "125 ^ n"] assms p by (simp add: thousand_pow)
  ultimately obtain a e b f where
    x: "f_of_int (k * 1000 ^ n) = Fin a e" "num_of a e = k * 1000 ^ n * den_of e" and
    y: "f_of_int (1000 ^ n) = Fin b f" "num_of b f = 1000 ^ n * den_of f"
    by (cases "f_of_int (k * 1000 ^ n)"; cases "f_of_int (1000 ^ n)") auto
  let ?q = "den_of e * (1000 ^ n * den_of f)"
  have q: "0 < ?q" by simp
  have "num_of a e * den_of f = k * 2 ^ 0 * ?q" "den_of e * num_of b f = ?q"
    by (simp_all add: x y ac_simps)
  moreover have "0 \<le> k * 2 ^ 0 * ?q" using assms q by (intro mult_nonneg_nonneg) simp_all
  ultimately have "f_div_pos (Fin a e) (Fin b f) = round64 (k * 2 ^ 0 * ?q) ?q"
    unfolding f_div_pos.simps round_signed_def by (metis not_less)
  then obtain m g where m: "f_div_pos (Fin a e) (Fin b f) = Fin m g"
    "num_of m g = k * den_of g" "0 \<le> m"
    using round64_exact_shift [of k ?q 0] assms q by auto
  have "rhe (10 * \<bar>num_of m g\<bar>) (den_of g) = 10 * k"
  proof -
    have "0 \<le> k * den_of g" using assms by (simp add: less_imp_le)
    then have e: "10 * \<bar>num_of m g\<bar> = 10 * k * den_of g" by (simp add: m(2))
    show ?thesis unfolding e by (rule rhe_exact) simp
  qed
  moreover have "show_nat 0 = ''0''" by code_simp
  ultimately show ?thesis using m by (simp add: x y)
qed

text \<open>
  Sizes round trip: a whole number of units, up to 999 of them and within \<open>int64\<close>, is printed by
  \<open>HumanBytes\<close> so that \<open>parseHumanBytes\<close> reads the same byte count back.
\<close>

theorem human_roundtrip:
  assumes "0 \<le> k" "k < 1000" "n \<le> 6" "k * 1000 ^ n \<le> max_int64"
  shows "parseHumanBytes U (HumanBytes (k * 1000 ^ n)) = k * 1000 ^ n"
proof (cases "k * 1000 ^ n < 1000")
  case True
  have "parseHumanBytes U (show_nat (k * 1000 ^ n) @ [] @ sp # ''B'') = k * 1000 ^ n * 1"
    using True assms(1)
    by (intro parse_size [where c = 1 and j = 0]) (simp_all add: unit_word byteUnitMultipliers_def)
  moreover have "\<not> k * 1000 ^ n < 0" using assms(1) by (simp add: not_less)
  ultimately show ?thesis using True by (simp add: HumanBytes_def show_int_def)
next
  case False
  obtain dv ex where hl: "human_loop (k * 1000 ^ n div 1000) 1000 0 = (dv, ex)" by fastforce
  note u = human_unit [OF hl]
  have k: "0 < k" using False assms(1) by (cases "k = 0") simp_all
  have "n = ex + 1"
  proof (rule ccontr)
    assume "n \<noteq> ex + 1"
    then consider "n < ex + 1" | "ex + 1 < n" by linarith
    then show False
    proof cases
      case 1
      then have "1000 * (1000::int) ^ n \<le> 1000 ^ (ex + 1)"
        using power_increasing [of "Suc n" "ex + 1" "1000::int"] by simp
      moreover have "k * 1000 ^ n < 1000 * 1000 ^ n" using assms(2) by simp
      moreover have "1000 ^ (ex + 1) \<le> k * 1000 ^ n" using u(2,3) False by simp
      ultimately show False by linarith
    next
      case 2
      then have "1000 * (1000::int) ^ (ex + 1) \<le> 1000 ^ n"
        using power_increasing [of "Suc (ex + 1)" n "1000::int"] by simp
      also have "\<dots> \<le> k * 1000 ^ n" using k by simp
      finally show False using u(2,4) 2 assms(3) False by simp
    qed
  qed
  have "HumanBytes (k * 1000 ^ n) = show_nat k @ ''.0'' @ sp # humanByteSuffixes ! ex"
    using False hl fmt_whole [OF assms(1-3)] u(2) \<open>n = ex + 1\<close> by (simp add: HumanBytes_def)
  moreover have "parseHumanBytes U (show_nat k @ ''.0'' @ sp # humanByteSuffixes ! ex) = k * 1000 ^ n"
    using assms units_fit [OF assms(1-3)] suffix_unit [of ex U] u(1) False \<open>n = ex + 1\<close>
      thousand_pow [of n]
    by (intro parse_size [where c = "125 ^ n" and j = "3 * n"]) simp_all
  ultimately show ?thesis by simp
qed

theorem human_roundtrip_witness:
  "parseHumanBytes no_unicode (HumanBytes (512 * 1000 ^ 2)) = 512000000"
  using human_roundtrip [of 512 2 no_unicode] by simp

text \<open>
  The unit \<open>HumanBytes\<close> picks: below 1000 the exact count in bytes; from there on a suffix of the
  table, the one whose unit is the largest power of 1000 that fits (\<open>EB\<close> at most), and that suffix
  means the same unit to \<open>parseHumanBytes\<close>.
\<close>

theorem human_scale:
  "(n < 1000 \<longrightarrow> HumanBytes n = show_int n @ '' B'') \<and>
   (1000 \<le> n \<longrightarrow> (\<exists>ex \<le> 5. 1000 ^ (ex + 1) \<le> n \<and> (n < 1000 ^ (ex + 2) \<or> ex = 5) \<and>
      HumanBytes n = fmt_1f (f_div_pos (f_of_int n) (f_of_int (1000 ^ (ex + 1)))) @ sp # humanByteSuffixes ! ex \<and>
      byteUnitMultipliers (humanByteSuffixes ! ex) = Some (1000 ^ (ex + 1))))"
proof (cases "n < 1000")
  case True
  then show ?thesis by (simp add: HumanBytes_def)
next
  case False
  obtain dv ex where hl: "human_loop (n div 1000) 1000 0 = (dv, ex)" by fastforce
  note u = human_unit [OF hl]
  have "1000 ^ (ex + 1) \<le> n \<and> (n < 1000 ^ (ex + 2) \<or> ex = 5)"
    using u False by (cases "ex = 5") simp_all
  moreover have "HumanBytes n
      = fmt_1f (f_div_pos (f_of_int n) (f_of_int (1000 ^ (ex + 1)))) @ sp # humanByteSuffixes ! ex"
    using False hl u(2) by (simp add: HumanBytes_def)
  ultimately show ?thesis using False u(1) suffix_unit [of ex U] by auto
qed

theorem human_scale_witness:
  "HumanBytes 7 = ''7 B'' \<and> HumanBytes 1500 = ''1.5 KB''"
proof -
  have "HumanBytes 7 = show_int 7 @ '' B''" using human_scale [of 7] by simp
  moreover have "HumanBytes 1500 = ''1.5 KB''" by code_simp
  moreover have "show_int 7 = ''7''" by code_simp
  ultimately show ?thesis by simp
qed

subsection \<open>What the summary is\<close>

text \<open>The specification: the first summary line decides; without one, the last line with text.\<close>

definition summary_line :: "bytes \<Rightarrow> bool" where
  "summary_line line \<longleftrightarrow> contains line ''Processed'' \<and> contains line ''reclaimed''"

definition last_text :: "bytes list \<Rightarrow> bytes" where
  "last_text ls = foldl (\<lambda>acc l. if trim_space l = [] then acc else trim_space l) [] ls"

definition summary_of :: "unicode_tables \<Rightarrow> bytes \<Rightarrow> ActionSummary" where
  "summary_of U line =
     (let raw = trim_space (drop (the (str_index line ''Processed'')) line) in
      case reclaimedMetrics U raw of (files, reclaimed, est) \<Rightarrow>
        \<lparr>as_RawLine = raw, as_Files = files, as_ReclaimedBytes = reclaimed,
         as_Estimated = est, as_Matched = True\<rparr>)"

lemma contains_byte: "contains s t \<Longrightarrow> c \<in> set t \<Longrightarrow> c \<in> set s"
  by (auto simp: contains_iff)

lemma summary_line_text: "contains l ''Processed'' \<Longrightarrow> trim_space l \<noteq> []"
proof -
  assume "contains l ''Processed''"
  then have "CHR ''P'' \<in> set l" by (rule contains_byte) simp
  then have "CHR ''P'' \<in> set (trim_space l)"
    by (rule trim_keeps) (simp add: ascii_simps)
  then show ?thesis by auto
qed

lemma summary_loop_spec:
  "summary_loop U acc ls =
     (case find summary_line ls of
        Some l \<Rightarrow> summary_of U l
      | None \<Rightarrow> zero_summary\<lparr>as_RawLine :=
          foldl (\<lambda>acc l. if trim_space l = [] then acc else trim_space l) acc ls\<rparr>)"
proof (induction U acc ls rule: summary_loop.induct)
  case (1 U acc)
  then show ?case by (simp add: zero_summary_def)
next
  case (2 U acc line ls)
  show ?case
  proof (cases "trim_space line = []")
    case True
    then have "\<not> contains line ''Processed''" using summary_line_text by blast
    with True "2.IH"(1) show ?thesis
      by (simp add: summary_line_def split: option.splits)
  next
    case False
    with "2.IH" show ?thesis
      by (auto simp: Let_def summary_line_def contains_def summary_of_def split: option.splits prod.splits)
  qed
qed

lemma summary_matched: "as_Matched (ParseActionSummary U s) = list_ex summary_line (split_nl s)"
proof -
  have "list_ex summary_line ls = (find summary_line ls \<noteq> None)" for ls
    by (induction ls) auto
  then show ?thesis
    by (auto simp: ParseActionSummary_def summary_loop_spec summary_of_def Let_def
        zero_summary_def split: option.splits prod.splits)
qed

text \<open>
  C30. Which line decides, exactly. The summary is read off the first line of the output that holds both
  \<open>Processed\<close> and \<open>reclaimed\<close>, from the first \<open>Processed\<close> on; \<open>Matched\<close> is set exactly when there is
  one, and otherwise the raw line is the last line with text (trimmed) and every metric is zero.
\<close>

theorem summary_spec:
  "ParseActionSummary U s =
     (case find summary_line (split_nl s) of
        Some l \<Rightarrow> summary_of U l
      | None \<Rightarrow> zero_summary\<lparr>as_RawLine := last_text (split_nl s)\<rparr>) \<and>
   as_Matched (ParseActionSummary U s) = list_ex summary_line (split_nl s)"
  by (rule conjI, simp only: ParseActionSummary_def last_text_def summary_loop_spec, rule summary_matched)

lemma floatToInt64_bounds: "0 \<le> floatToInt64 f \<and> floatToInt64 f \<le> max_int64"
proof (cases f)
  case (Fin m e)
  show ?thesis
  proof (cases "m < 0 \<or> 2 ^ 63 * den_of e \<le> num_of m e")
    case True
    then show ?thesis by (auto simp: floatToInt64_def Fin)
  next
    case False
    then have n: "0 \<le> num_of m e" "num_of m e < 2 ^ 63 * den_of e" by (auto simp: num_of_def)
    then have "num_of m e div den_of e < 2 ^ 63"
    proof -
      have "num_of m e div den_of e * den_of e \<le> num_of m e"
        using pos_mod_sign [OF den_of_pos, of "num_of m e" e]
        by (simp add: minus_mod_eq_div_mult [symmetric])
      also note n(2)
      finally show ?thesis by (rule mult_right_less_imp_less) simp
    qed
    moreover have "0 \<le> num_of m e div den_of e" using n(1) by (simp add: pos_imp_zdiv_nonneg_iff)
    ultimately show ?thesis using False n
      by (auto simp: floatToInt64_def Fin sgn_if)
  qed
qed (auto simp: floatToInt64_def)


lemma parseHumanBytes_bounds: "0 \<le> parseHumanBytes U s \<and> parseHumanBytes U s \<le> max_int64"
  using floatToInt64_bounds by (auto simp: parseHumanBytes_def Let_def split: option.splits)

lemma reclaimedMetrics_bounds:
  "reclaimedMetrics U raw = (files, reclaimed, est) \<Longrightarrow>
     0 \<le> files \<and> files \<le> max_int64 \<and> 0 \<le> reclaimed \<and> reclaimed \<le> max_int64"
  using parseHumanBytes_bounds
  by (fastforce simp: reclaimedMetrics_def atoi_def Let_def split: if_splits option.splits)

text \<open>
  C29. The numbers of the summary have their types: whatever fclones prints, the file count and the byte
  count are \<open>int64\<close> values, not negative (no size overflows, none is lost in a conversion); without a
  summary line they are zero and not flagged as estimated.
\<close>

theorem summary_bounds:
  "let m = ParseActionSummary U s in
     0 \<le> as_Files m \<and> as_Files m \<le> max_int64 \<and>
     0 \<le> as_ReclaimedBytes m \<and> as_ReclaimedBytes m \<le> max_int64 \<and>
     (as_Matched m \<or> as_Files m = 0 \<and> as_ReclaimedBytes m = 0 \<and> \<not> as_Estimated m)"
  using reclaimedMetrics_bounds
  by (fastforce simp: ParseActionSummary_def summary_loop_spec summary_of_def zero_summary_def Let_def
      split: option.splits prod.splits)

subsection \<open>The summary fclones prints\<close>

text \<open>The words of the summary: an upper bound reads \<open>up to\<close>; more words may follow.\<close>

definition summary_words :: "int \<Rightarrow> bool \<Rightarrow> int \<Rightarrow> bytes \<Rightarrow> bytes list \<Rightarrow> bytes list" where
  "summary_words files est k u rest =
     [''Processed'', show_int files, ''files'', ''and'', ''reclaimed''] @
     (if est then [''up'', ''to''] else []) @ [show_nat k, u] @ rest"

lemma summary_metrics:
  assumes "0 \<le> files" "files \<le> max_int64" "0 \<le> k" "k < 2 ^ 50"
    and "u \<in> {''B'', ''KB'', ''MB'', ''GB'', ''TB'', ''PB'', ''EB''}"
    and "byteUnitMultipliers u = Some mult" "mult = c * 2 ^ j" "0 \<le> c" "c < 2 ^ 53" "j \<le> 900"
    and "k * c < 2 ^ 53" "k * mult \<le> max_int64" "list_all plain_word rest"
  shows "reclaimedMetrics U (join [sp] (summary_words files est k u rest)) = (files, k * mult, est)"
proof -
  have "list_all plain_word (summary_words files est k u rest)"
    using assms(13) unit_word [OF assms(5)] plain_word_nat [OF assms(3)]
    by (auto simp: summary_words_def plain_word_show_int)
      (auto simp: ascii_simps)
  then have fs: "str_fields (join [sp] (summary_words files est k u rest))
      = summary_words files est k u rest" by (rule str_fields_join)
  have sz: "parseHumanBytes U (show_nat k @ [] @ sp # u) = k * mult"
    using assms unit_word [OF assms(5), of U] by (intro parse_size [where c = c and j = j]) simp_all
  have up: "show_nat k \<noteq> ''up''"
  proof
    assume u: "show_nat k = ''up''"
    from show_nat_facts [OF assms(3)] show False by (simp add: u is_digit_def byte_val_def)
  qed
  have "atoi (show_int files) = Some files" using assms(1,2) by (simp add: atoi_show_int)
  then show ?thesis using sz up assms(1)
    unfolding reclaimedMetrics_def fs Let_def by (simp add: summary_words_def)
qed


definition unit_name :: "nat \<Rightarrow> bytes" where
  "unit_name n = (if n = 0 then ''B'' else humanByteSuffixes ! (n - 1))"

lemma unit_name_facts:
  "n \<le> 6 \<Longrightarrow> unit_name n \<in> {''B'', ''KB'', ''MB'', ''GB'', ''TB'', ''PB'', ''EB''} \<and>
     byteUnitMultipliers (unit_name n) = Some (1000 ^ n)"
proof -
  assume n: "n \<le> 6"
  show ?thesis
  proof (cases n)
    case 0
    then show ?thesis by (simp add: unit_name_def byteUnitMultipliers_def)
  next
    case (Suc ex)
    with n consider "ex = 0" | "ex = 1" | "ex = 2" | "ex = 3" | "ex = 4" | "ex = 5" by linarith
    then show ?thesis
      by cases (simp_all add: Suc unit_name_def humanByteSuffixes_def byteUnitMultipliers_def)
  qed
qed

lemma word_join_ends:
  "list_all plain_word (ws @ [w]) \<Longrightarrow>
     join [sp] (ws @ [w]) \<noteq> [] \<and> word_byte (hd (join [sp] (ws @ [w]))) \<and>
     word_byte (last (join [sp] (ws @ [w])))"
proof (induction ws)
  case Nil
  then show ?case by (cases w) (auto simp: plain_word_def list_all_iff)
next
  case (Cons v ws)
  obtain y ys where y: "ws @ [w] = y # ys" by (cases ws) auto
  have "join [sp] ((v # ws) @ [w]) = v @ sp # join [sp] (ws @ [w])" by (simp add: y)
  moreover have "v \<noteq> []" "word_byte (hd v)"
    using Cons.prems by (cases v; auto simp: plain_word_def)+
  ultimately show ?case using Cons by simp
qed

text \<open>
  The line fclones prints is read back exactly. When the first summary line of the output is
  \<open>Processed N files and reclaimed [up to ]K U ...\<close> (log framing before \<open>Processed\<close> is allowed), the
  metrics are the \<open>N\<close> files, the \<open>K\<close> units in bytes, and the estimate flag of \<open>up to\<close>.
\<close>

theorem summary_canonical:
  assumes "0 \<le> files" "files \<le> max_int64" "0 \<le> k" "k < 1000" "n \<le> 6" "k * 1000 ^ n \<le> max_int64"
    and "list_all plain_word rest"
    and "split_nl s = pre @ (frame @ join [sp] (summary_words files est k (unit_name n) rest)) # post"
    and "\<not> list_ex summary_line pre"
    and "str_index (frame @ join [sp] (summary_words files est k (unit_name n) rest)) ''Processed''
           = Some (length frame)"
  shows "ParseActionSummary U s =
    \<lparr>as_RawLine = join [sp] (summary_words files est k (unit_name n) rest), as_Files = files,
     as_ReclaimedBytes = k * 1000 ^ n, as_Estimated = est, as_Matched = True\<rparr>"
proof -
  let ?ws = "summary_words files est k (unit_name n) rest"
  note un = unit_name_facts [OF assms(5)]
  have n3: "3 * n \<le> 900" using assms(5) by simp
  have m: "reclaimedMetrics U (join [sp] ?ws) = (files, k * 1000 ^ n, est)"
    using n3 assms un units_fit [OF assms(3-5)] thousand_pow [of n]
    by (intro summary_metrics [where c = "125 ^ n" and j = "3 * n"]) simp_all
  have "list_all plain_word ?ws"
    using assms(7) unit_word [of "unit_name n"] un plain_word_nat [OF assms(3)]
    by (auto simp: summary_words_def plain_word_show_int)
      (auto simp: ascii_simps)
  moreover have "?ws \<noteq> []" by (simp add: summary_words_def)
  ultimately have tr: "trim_space (join [sp] ?ws) = join [sp] ?ws"
    using word_join_ends [of "butlast ?ws" "last ?ws"] by (simp add: trim_space_id)
  have "join [sp] ?ws = (''Processed '' @ show_int files @ '' files and '') @ ''reclaimed'' @
      sp # join [sp] ((if est then [''up'', ''to''] else []) @ [show_nat k, unit_name n] @ rest)"
    by (simp add: summary_words_def)
  then have "contains (join [sp] ?ws) ''reclaimed''" by (metis contains_append_right)
  then have "summary_line (frame @ join [sp] ?ws)"
    using assms(10) unfolding summary_line_def contains_iff [of _ "''reclaimed''"]
    by (metis append.assoc contains_def option.distinct(1))
  moreover have "find summary_line (pre @ l # post) = Some l" if "summary_line l" for l
    using assms(9) that by (induction pre) auto
  ultimately have "ParseActionSummary U s = summary_of U (frame @ join [sp] ?ws)"
    by (simp add: ParseActionSummary_def summary_loop_spec assms(8))
  then show ?thesis by (simp add: summary_of_def assms(10) tr m)
qed


theorem summary_canonical_witness:
  "ParseActionSummary no_unicode
     (''start'' @ [nl] @ ''[fclones]: '' @ ''Processed 73 files and reclaimed up to 512 MB space'' @ [nl]) =
   \<lparr>as_RawLine = ''Processed 73 files and reclaimed up to 512 MB space'', as_Files = 73,
    as_ReclaimedBytes = 512000000, as_Estimated = True, as_Matched = True\<rparr>"
proof -
  have sn: "show_int 73 = ''73''" "show_nat 512 = ''512''" by code_simp+
  have un: "unit_name 2 = ''MB''" by (simp add: unit_name_def humanByteSuffixes_def)
  have rest: "list_all plain_word [''space'']"
    by (simp add: ascii_simps)
  have w: "join [sp] (summary_words 73 True 512 (unit_name 2) [''space''])
      = ''Processed 73 files and reclaimed up to 512 MB space''"
    by (simp add: summary_words_def sn un)
  show ?thesis
    using summary_canonical [of 73 512 2 "[''space'']"
        "''start'' @ [nl] @ ''[fclones]: '' @ ''Processed 73 files and reclaimed up to 512 MB space'' @ [nl]"
        "[''start'']" "''[fclones]: ''" True "[[]]" no_unicode] rest
    by (simp add: w summary_line_def contains_def)
qed

end
