(* ===== verification/Report.thy ===== *)
theory Report
  imports Parsing
begin

text \<open>
  The other half of \<open>internal/parsing\<close>: the strict, streaming decode of the JSON scan report
  (\<open>DecodeReport\<close>, \<open>reportDecoder.field\<close>, \<open>decodeGroups\<close>, \<open>openStrict\<close>).

  The token decoder (\<open>jsonx.Decoder\<close>) is a third-party package: the parameter \<open>jdec\<close>, one function per
  method the code calls, each returning the decoder's next state. The loop \<open>for d.More()\<close> runs on fuel;
  \<open>RepFuel\<close> marks its exhaustion and the stream lemmas show how much is enough.
\<close>

subsection \<open>Data\<close>

record ReportStats =
  rs_GroupCount :: int
  rs_RedundantFileSize :: int

record reportHeaderJSON =
  rh_Stats :: "ReportStats option"

record reportGroupJSON =
  rg_Files :: "bytes list"
  rg_FileLen :: int

record DuplicateGroup =
  dg_Keeper :: bytes
  dg_SizePerDup :: bytes
  dg_Duplicates :: "bytes list"

record Report =
  rp_Groups :: "DuplicateGroup list"
  rp_Stats :: ReportStats
  rp_TotalGroups :: int
  rp_TotalDuplicates :: int

definition zero_report :: Report where
  "zero_report = \<lparr>rp_Groups = [], rp_Stats = \<lparr>rs_GroupCount = 0, rs_RedundantFileSize = 0\<rparr>,
     rp_TotalGroups = 0, rp_TotalDuplicates = 0\<rparr>"

datatype rep_error =
    RepLib syserr                   \<comment> \<open>made by \<open>jsonx\<close>\<close>
  | RepNull                         \<comment> \<open>"unexpected null"\<close>
  | RepReport rep_error             \<comment> \<open>"report: %w"\<close>
  | RepHeader rep_error             \<comment> \<open>"report header: %w"\<close>
  | RepField bytes rep_error        \<comment> \<open>"report field %q: %w"\<close>
  | RepGroups rep_error             \<comment> \<open>"report groups: %w"\<close>
  | RepGroup int rep_error          \<comment> \<open>"report group %d: %w"\<close>
  | RepFewFiles int nat
  | RepNegativeLen int int
  | RepMissingHeader
  | RepNoStats
  | RepMissingGroups
  | RepCountMismatch int int
  | RepFuel                         \<comment> \<open>the model's loop bound, not an error of the code\<close>

record reportDecoder =
  rd_header :: "reportHeaderJSON option"
  rd_fieldErr :: "rep_error option"
  rd_report :: Report
  rd_keepGroups :: int
  rd_groupsSeen :: bool

text \<open>The methods of \<open>jsonx.Decoder\<close>. \<open>Object\<close> gets the callback, which works on both states.\<close>

record 'd jdec =
  jd_object :: "(bytes \<Rightarrow> 'd \<times> reportDecoder \<Rightarrow> rep_error option \<times> 'd \<times> reportDecoder)
                  \<Rightarrow> 'd \<times> reportDecoder \<Rightarrow> rep_error option \<times> 'd \<times> reportDecoder"
  jd_end :: "'d \<Rightarrow> syserr option \<times> 'd"
  jd_decode_header :: "'d \<Rightarrow> (syserr + reportHeaderJSON) \<times> 'd"
  jd_decode_group :: "'d \<Rightarrow> (syserr + reportGroupJSON) \<times> 'd"
  jd_skip :: "'d \<Rightarrow> syserr option \<times> 'd"
  jd_open :: "'d \<Rightarrow> (syserr + bool) \<times> 'd"
  jd_more :: "'d \<Rightarrow> bool"
  jd_close :: "'d \<Rightarrow> syserr option \<times> 'd"

subsection \<open>The decode\<close>

definition openStrict :: "'d jdec \<Rightarrow> 'd \<Rightarrow> rep_error option \<times> 'd" where
  "openStrict J d =
     (case jd_open J d of
        (Inl e, d') \<Rightarrow> (Some (RepLib e), d')
      | (Inr ok, d') \<Rightarrow> if \<not> ok then (Some RepNull, d') else (None, d'))"

text \<open>One group, after its decode: the two checks, the retention under the cap and the totals.\<close>

definition add_group :: "int \<Rightarrow> reportGroupJSON \<Rightarrow> Report \<Rightarrow> rep_error + Report" where
  "add_group keepGroups g report =
     (if length (rg_Files g) < 2
      then Inl (RepFewFiles (rp_TotalGroups report) (length (rg_Files g)))
      else if rg_FileLen g < 0 then Inl (RepNegativeLen (rp_TotalGroups report) (rg_FileLen g))
      else let r1 = (if int (length (rp_Groups report)) < keepGroups
                     then report\<lparr>rp_Groups := rp_Groups report @
                            [\<lparr>dg_Keeper = rg_Files g ! 0, dg_SizePerDup = HumanBytes (rg_FileLen g),
                              dg_Duplicates = drop 1 (rg_Files g)\<rparr>]\<rparr>
                     else report)
           in Inr (r1\<lparr>rp_TotalGroups := rp_TotalGroups r1 + 1,
                      rp_TotalDuplicates := rp_TotalDuplicates r1 + int (length (rg_Files g)) - 1\<rparr>))"

fun groups_loop :: "nat \<Rightarrow> 'd jdec \<Rightarrow> int \<Rightarrow> 'd \<Rightarrow> Report \<Rightarrow> rep_error option \<times> 'd \<times> Report" where
  "groups_loop 0 J keepGroups d report = (Some RepFuel, d, report)"
| "groups_loop (Suc fuel) J keepGroups d report =
     (if jd_more J d then
        (case jd_decode_group J d of
           (Inl e, d') \<Rightarrow> (Some (RepGroup (rp_TotalGroups report) (RepLib e)), d', report)
         | (Inr g, d') \<Rightarrow>
             (case add_group keepGroups g report of
                Inl e \<Rightarrow> (Some e, d', report)
              | Inr report' \<Rightarrow> groups_loop fuel J keepGroups d' report'))
      else (case jd_close J d of
              (Some e, d') \<Rightarrow> (Some (RepGroups (RepLib e)), d', report)
            | (None, d') \<Rightarrow> (None, d', report)))"

definition decodeGroups :: "nat \<Rightarrow> 'd jdec \<Rightarrow> int \<Rightarrow> 'd \<Rightarrow> Report \<Rightarrow> rep_error option \<times> 'd \<times> Report" where
  "decodeGroups fuel J keepGroups d report =
     (case openStrict J d of
        (Some e, d') \<Rightarrow> (Some (RepGroups e), d', report)
      | (None, d') \<Rightarrow> groups_loop fuel J keepGroups d' report)"

definition rd_fail :: "reportDecoder \<Rightarrow> rep_error \<Rightarrow> rep_error option \<times> reportDecoder" where
  "rd_fail rd err = (Some err, rd\<lparr>rd_fieldErr := Some err\<rparr>)"

definition rd_field ::
  "nat \<Rightarrow> 'd jdec \<Rightarrow> bytes \<Rightarrow> 'd \<times> reportDecoder \<Rightarrow> rep_error option \<times> 'd \<times> reportDecoder" where
  "rd_field fuel J key ds =
     (case ds of (d, rd) \<Rightarrow>
        if key = ''header'' then
          let rd1 = rd\<lparr>rd_header := Some \<lparr>rh_Stats = None\<rparr>\<rparr> in
          (case jd_decode_header J d of
             (Inl e, d') \<Rightarrow> (case rd_fail rd1 (RepHeader (RepLib e)) of (err, rd2) \<Rightarrow> (err, d', rd2))
           | (Inr h, d') \<Rightarrow> (None, d', rd1\<lparr>rd_header := Some h\<rparr>))
        else if key = ''groups'' then
          let rd1 = rd\<lparr>rd_groupsSeen := True\<rparr> in
          (case decodeGroups fuel J (rd_keepGroups rd1) d (rd_report rd1) of
             (Some e, d', rep) \<Rightarrow>
               (case rd_fail (rd1\<lparr>rd_report := rep\<rparr>) e of (err, rd2) \<Rightarrow> (err, d', rd2))
           | (None, d', rep) \<Rightarrow> (None, d', rd1\<lparr>rd_report := rep\<rparr>))
        else
          (case jd_skip J d of
             (Some e, d') \<Rightarrow> (case rd_fail rd (RepField key (RepLib e)) of (err, rd2) \<Rightarrow> (err, d', rd2))
           | (None, d') \<Rightarrow> (None, d', rd)))"

definition new_reportDecoder :: "int \<Rightarrow> reportDecoder" where
  "new_reportDecoder keepGroups = \<lparr>rd_header = None, rd_fieldErr = None, rd_report = zero_report,
     rd_keepGroups = keepGroups, rd_groupsSeen = False\<rparr>"

definition DecodeReport :: "nat \<Rightarrow> 'd jdec \<Rightarrow> 'd \<Rightarrow> int \<Rightarrow> rep_error + Report" where
  "DecodeReport fuel J d0 keepGroups =
     (case jd_object J (rd_field fuel J) (d0, new_reportDecoder keepGroups) of
        (Some e, d, rd) \<Rightarrow>
          (case rd_fieldErr rd of Some fe \<Rightarrow> Inl fe | None \<Rightarrow> Inl (RepReport e))
      | (None, d, rd) \<Rightarrow>
          (case jd_end J d of
             (Some e, _) \<Rightarrow> Inl (RepReport (RepLib e))
           | (None, _) \<Rightarrow>
               (case rd_header rd of
                  None \<Rightarrow> Inl RepMissingHeader
                | Some h \<Rightarrow>
                    (case rh_Stats h of
                       None \<Rightarrow> Inl RepNoStats
                     | Some st \<Rightarrow>
                         if \<not> rd_groupsSeen rd then Inl RepMissingGroups
                         else if rs_GroupCount st \<noteq> rp_TotalGroups (rd_report rd)
                         then Inl (RepCountMismatch (rs_GroupCount st) (rp_TotalGroups (rd_report rd)))
                         else Inr ((rd_report rd)\<lparr>rp_Stats := st\<rparr>)))))"

subsection \<open>The report under construction\<close>

text \<open>The counters and the retained groups fit together after every group.\<close>

definition listed_duplicates :: "Report \<Rightarrow> int" where
  "listed_duplicates r = int (length (concat (map dg_Duplicates (rp_Groups r))))"

definition report_wf :: "int \<Rightarrow> Report \<Rightarrow> bool" where
  "report_wf keep r \<longleftrightarrow>
     int (length (rp_Groups r)) = min (max 0 keep) (rp_TotalGroups r) \<and>
     (\<forall>g \<in> set (rp_Groups r). dg_Duplicates g \<noteq> []) \<and>
     0 \<le> rp_TotalGroups r \<and> rp_TotalGroups r \<le> rp_TotalDuplicates r \<and>
     (rp_TotalGroups r = 0 \<longrightarrow> rp_TotalDuplicates r = 0) \<and>
     listed_duplicates r + (rp_TotalGroups r - int (length (rp_Groups r))) \<le> rp_TotalDuplicates r \<and>
     (rp_TotalGroups r \<le> keep \<longrightarrow> rp_TotalDuplicates r = listed_duplicates r)"

lemma report_wf_zero: "report_wf keep zero_report"
  by (simp add: report_wf_def listed_duplicates_def zero_report_def)

lemma add_group_wf:
  "add_group keep g r = Inr r' \<Longrightarrow> report_wf keep r \<Longrightarrow> report_wf keep r'"
  by (cases "rg_Files g" rule: remdups_adj.cases)
     (auto simp: add_group_def report_wf_def listed_duplicates_def Let_def min_def max_def split: if_splits)

lemma groups_loop_wf:
  "groups_loop fuel J keep d r = (None, d', r') \<Longrightarrow> report_wf keep r \<Longrightarrow> report_wf keep r'"
proof (induction fuel J keep d r rule: groups_loop.induct)
  case (2 fuel J keep d r)
  then show ?case
    by (auto split: if_splits prod.splits sum.splits option.splits dest: add_group_wf)
qed simp

lemma decodeGroups_wf:
  "decodeGroups fuel J keep d r = (None, d', r') \<Longrightarrow> report_wf keep r \<Longrightarrow> report_wf keep r'"
  by (auto simp: decodeGroups_def split: prod.splits option.splits dest: groups_loop_wf)

definition decoder_wf :: "int \<Rightarrow> reportDecoder \<Rightarrow> bool" where
  "decoder_wf keep rd \<longleftrightarrow> rd_keepGroups rd = keep \<and> report_wf keep (rd_report rd)"

lemma field_wf:
  "rd_field fuel J key (d, rd) = (None, d', rd') \<Longrightarrow> decoder_wf keep rd \<Longrightarrow> decoder_wf keep rd'"
  by (auto simp: rd_field_def decoder_wf_def rd_fail_def Let_def
      split: if_splits prod.splits sum.splits option.splits dest: decodeGroups_wf)

text \<open>
  What the code relies on in \<open>jsonx.Decoder.Object\<close>: it changes the caller's data only through the
  callback, and it reports success only when every call of the callback did. Hence what every
  successful call preserves holds after a successful walk.
\<close>

definition object_contract :: "'d jdec \<Rightarrow> bool" where
  "object_contract J \<longleftrightarrow>
     (\<forall>I cb d rd d' rd'. (\<forall>key d rd d' rd'. cb key (d, rd) = (None, d', rd') \<longrightarrow> I rd \<longrightarrow> I rd') \<longrightarrow>
        jd_object J cb (d, rd) = (None, d', rd') \<longrightarrow> I rd \<longrightarrow> I rd')"

lemma object_induct:
  assumes "object_contract J" and "jd_object J cb (d, rd) = (None, d', rd')" and "I rd"
    and "\<And>key d rd d' rd'. cb key (d, rd) = (None, d', rd') \<Longrightarrow> I rd \<Longrightarrow> I rd'"
  shows "I rd'"
  using assms(1) [unfolded object_contract_def, THEN spec [of _ I], THEN spec [of _ cb]] assms(2-4)
  by blast

lemma DecodeReport_success:
  assumes "object_contract J" and "DecodeReport fuel J d0 keep = Inr r"
  shows "report_wf keep r \<and> rs_GroupCount (rp_Stats r) = rp_TotalGroups r"
proof -
  obtain e d rd where obj0: "jd_object J (rd_field fuel J) (d0, new_reportDecoder keep) = (e, d, rd)"
    by (metis prod.exhaust)
  have "e = None" using assms(2) obj0 by (cases e) (simp_all add: DecodeReport_def split: option.splits)
  with obj0 have obj: "jd_object J (rd_field fuel J) (d0, new_reportDecoder keep) = (None, d, rd)"
    by simp
  obtain st where r: "r = (rd_report rd)\<lparr>rp_Stats := st\<rparr>"
    "rs_GroupCount st = rp_TotalGroups (rd_report rd)"
    using assms(2)
    by (simp add: DecodeReport_def obj split: prod.splits option.splits if_splits) blast
  have "decoder_wf keep (new_reportDecoder keep)"
    by (simp add: decoder_wf_def new_reportDecoder_def report_wf_zero)
  then have "decoder_wf keep rd" by (rule object_induct [OF assms(1) obj]) (rule field_wf)
  with r show ?thesis by (simp add: decoder_wf_def report_wf_def listed_duplicates_def)
qed



subsection \<open>The groups of a stream\<close>

text \<open>The groups a decoder yields from a state on, up to the end of its array.\<close>

inductive yields :: "'d jdec \<Rightarrow> 'd \<Rightarrow> reportGroupJSON list \<Rightarrow> 'd \<Rightarrow> bool" for J where
  yields_Nil: "yields J d [] d"
| yields_Cons: "jd_more J d \<Longrightarrow> jd_decode_group J d = (Inr g, d') \<Longrightarrow> yields J d' gs d''
    \<Longrightarrow> yields J d (g # gs) d''"

inductive_cases yields_NilE: "yields J d [] d'"
inductive_cases yields_ConsE: "yields J d (g # gs) d''"

definition group_ok :: "reportGroupJSON \<Rightarrow> bool" where
  "group_ok g \<longleftrightarrow> 2 \<le> length (rg_Files g) \<and> 0 \<le> rg_FileLen g"

definition display :: "reportGroupJSON \<Rightarrow> DuplicateGroup" where
  "display g = \<lparr>dg_Keeper = hd (rg_Files g), dg_SizePerDup = HumanBytes (rg_FileLen g),
     dg_Duplicates = tl (rg_Files g)\<rparr>"

definition add_groups :: "int \<Rightarrow> reportGroupJSON list \<Rightarrow> Report \<Rightarrow> Report" where
  "add_groups keep gs r =
     r\<lparr>rp_Groups := rp_Groups r @ take (nat (keep - int (length (rp_Groups r)))) (map display gs),
       rp_TotalGroups := rp_TotalGroups r + int (length gs),
       rp_TotalDuplicates := rp_TotalDuplicates r + (\<Sum>g \<leftarrow> gs. int (length (rg_Files g)) - 1)\<rparr>"

lemma add_groups_Nil: "add_groups keep [] r = r"
  by (simp add: add_groups_def)

lemma add_group_ok: "group_ok g \<Longrightarrow> add_group keep g r = Inr (add_groups keep [g] r)"
proof -
  assume g: "group_ok g"
  then obtain f fs where f: "rg_Files g = f # fs" by (cases "rg_Files g") (auto simp: group_ok_def)
  have n: "take (nat (keep - int m)) [x] = (if int m < keep then [x] else [])" for m and x :: 'x
    by (cases "nat (keep - int m)") auto
  show ?thesis using g
    by (auto simp: add_group_def add_groups_def group_ok_def display_def f n Let_def)
qed

lemma add_groups_Cons: "add_groups keep gs (add_groups keep [g] r) = add_groups keep (g # gs) r"
proof (cases "int (length (rp_Groups r)) < keep")
  case True
  then have "nat (keep - int (length (rp_Groups r)))
      = Suc (nat (keep - (1 + int (length (rp_Groups r)))))" by simp
  then show ?thesis by (simp add: add_groups_def ac_simps)
next
  case False
  then show ?thesis by (simp add: add_groups_def)
qed

lemma loop_stream:
  "yields J d gs d' \<Longrightarrow> list_all group_ok gs \<Longrightarrow>
     groups_loop (length gs + fuel) J keep d r = groups_loop fuel J keep d' (add_groups keep gs r)"
proof (induction arbitrary: r rule: yields.induct)
  case (yields_Nil d)
  then show ?case by (simp add: add_groups_Nil)
next
  case (yields_Cons d g d' gs d'')
  then show ?case by (simp add: add_group_ok add_groups_Cons)
qed


text \<open>
  C23. The streamed array, exactly. When the decoder yields well-formed groups up to the end of the
  array, \<open>decodeGroups\<close> succeeds on any fuel beyond their number: the totals grow by the group and the
  duplicate counts, and the retained groups are the first ones, in display form, up to the cap.
\<close>

theorem decode_groups_stream:
  assumes "jd_open J d = (Inr True, d0)" and "yields J d0 gs d1" and "\<not> jd_more J d1"
    and "jd_close J d1 = (None, d2)" and "list_all group_ok gs" and "length gs < fuel"
  shows "decodeGroups fuel J keep d r = (None, d2, add_groups keep gs r)"
proof -
  obtain k where fuel: "fuel = length gs + Suc k"
    using assms(6) by (metis add_Suc_right less_imp_Suc_add)
  show ?thesis
    using loop_stream [OF assms(2,5), of "Suc k" keep r] assms(3,4)
    by (simp add: decodeGroups_def openStrict_def assms(1) fuel)
qed

text \<open>
  The first bad group stops the decode, whatever follows it: after well-formed groups, a group with
  fewer than two files or a negative length is an error that names its position in the document.
\<close>

theorem decode_groups_bad:
  assumes "jd_open J d = (Inr True, d0)" and "yields J d0 gs d1" and "list_all group_ok gs"
    and "jd_more J d1" and "jd_decode_group J d1 = (Inr g, d2)" and "\<not> group_ok g"
    and "length gs < fuel"
  shows "fst (decodeGroups fuel J keep d r) =
    Some (if length (rg_Files g) < 2
          then RepFewFiles (rp_TotalGroups r + int (length gs)) (length (rg_Files g))
          else RepNegativeLen (rp_TotalGroups r + int (length gs)) (rg_FileLen g))"
proof -
  obtain k where fuel: "fuel = length gs + Suc k"
    using assms(7) by (metis add_Suc_right less_imp_Suc_add)
  have "add_group keep g (add_groups keep gs r) =
      Inl (if length (rg_Files g) < 2
          then RepFewFiles (rp_TotalGroups r + int (length gs)) (length (rg_Files g))
          else RepNegativeLen (rp_TotalGroups r + int (length gs)) (rg_FileLen g))"
    using assms(6) by (auto simp: add_group_def group_ok_def add_groups_def)
  then show ?thesis
    using loop_stream [OF assms(2,3), of "Suc k" keep r] assms(4,5)
    by (simp add: decodeGroups_def openStrict_def assms(1) fuel)
qed

subsection \<open>A concrete decoder\<close>

text \<open>
  A decoder over a document already split into its parts, to run the decode on concrete reports: the
  top-level keys, each with its value, and the groups still to be read from the open array.
\<close>

datatype jvalue = JHeader reportHeaderJSON | JGroups "reportGroupJSON list" | JOther | JBad

record doc =
  doc_keys :: "(bytes \<times> jvalue) list"
  doc_cur :: "jvalue option"
  doc_groups :: "reportGroupJSON list"

fun doc_object ::
  "(bytes \<Rightarrow> doc \<times> reportDecoder \<Rightarrow> rep_error option \<times> doc \<times> reportDecoder)
     \<Rightarrow> (bytes \<times> jvalue) list \<Rightarrow> doc \<times> reportDecoder \<Rightarrow> rep_error option \<times> doc \<times> reportDecoder" where
  "doc_object cb [] ds = (None, ds)"
| "doc_object cb (kv # kvs) ds =
     (case cb (fst kv) ((fst ds)\<lparr>doc_cur := Some (snd kv)\<rparr>, snd ds) of
        (Some e, ds') \<Rightarrow> (Some e, ds')
      | (None, ds') \<Rightarrow> doc_object cb kvs ds')"

definition doc_dec :: "doc jdec" where
  "doc_dec = \<lparr>
     jd_object = (\<lambda>cb ds. doc_object cb (doc_keys (fst ds)) ds),
     jd_end = (\<lambda>d. (None, d)),
     jd_decode_header = (\<lambda>d. (case doc_cur d of Some (JHeader h) \<Rightarrow> Inr h | _ \<Rightarrow> Inl ''type'', d)),
     jd_decode_group = (\<lambda>d. (case doc_groups d of g # gs \<Rightarrow> (Inr g, d\<lparr>doc_groups := gs\<rparr>)
                              | [] \<Rightarrow> (Inl ''eof'', d))),
     jd_skip = (\<lambda>d. (case doc_cur d of Some JBad \<Rightarrow> Some ''syntax'' | _ \<Rightarrow> None, d)),
     jd_open = (\<lambda>d. (case doc_cur d of Some (JGroups gs) \<Rightarrow> (Inr True, d\<lparr>doc_groups := gs\<rparr>)
                      | _ \<Rightarrow> (Inr False, d))),
     jd_more = (\<lambda>d. doc_groups d \<noteq> []),
     jd_close = (\<lambda>d. (None, d))\<rparr>"

lemma doc_object_contract: "object_contract doc_dec"
proof -
  have "I rd'" if "\<And>key d rd d' rd'. cb key (d, rd) = (None, d', rd') \<Longrightarrow> I rd \<Longrightarrow> I rd'"
    "doc_object cb kvs (d, rd) = (None, d', rd')" "I rd" for I cb kvs d rd d' rd'
    using that(2,3)
  proof (induction kvs arbitrary: d rd)
    case (Cons kv kvs)
    then show ?case using that(1) by (auto split: prod.splits option.splits)
  qed simp
  then show ?thesis unfolding object_contract_def doc_dec_def by (simp, blast)
qed

definition demo_group :: reportGroupJSON where
  "demo_group = \<lparr>rg_Files = [''/a'', ''/b'', ''/c''], rg_FileLen = 1500\<rparr>"

definition demo_doc :: doc where
  "demo_doc = \<lparr>doc_keys = [(''header'', JHeader \<lparr>rh_Stats = Some \<lparr>rs_GroupCount = 2, rs_RedundantFileSize = 3000\<rparr>\<rparr>),
      (''x'', JOther), (''groups'', JGroups [demo_group, demo_group])], doc_cur = None, doc_groups = []\<rparr>"

lemma demo_decodes:
  "\<exists>r. DecodeReport 3 doc_dec demo_doc 1 = Inr r \<and> rp_TotalGroups r = 2 \<and> rp_TotalDuplicates r = 4
     \<and> length (rp_Groups r) = 1"
  "\<exists>r. DecodeReport 3 doc_dec demo_doc 5 = Inr r \<and> rp_TotalGroups r = 2"
  by (simp_all add: DecodeReport_def doc_dec_def demo_doc_def rd_field_def decodeGroups_def openStrict_def
      numeral_3_eq_3 demo_group_def add_group_def new_reportDecoder_def zero_report_def Let_def)


lemma demo_yields:
  "yields doc_dec \<lparr>doc_keys = [], doc_cur = c, doc_groups = [demo_group]\<rparr> [demo_group]
     \<lparr>doc_keys = [], doc_cur = c, doc_groups = []\<rparr>"
  by (rule yields_Cons [OF _ _ yields_Nil]) (simp_all add: doc_dec_def)

theorem decode_groups_stream_witness:
  "rp_TotalDuplicates (snd (snd (decodeGroups 2 doc_dec 5
     \<lparr>doc_keys = [], doc_cur = Some (JGroups [demo_group]), doc_groups = []\<rparr> zero_report))) = 2"
  using decode_groups_stream [OF _ demo_yields, of "\<lparr>doc_keys = [], doc_cur = Some (JGroups [demo_group]), doc_groups = []\<rparr>"
      "Some (JGroups [demo_group])" "\<lparr>doc_keys = [], doc_cur = Some (JGroups [demo_group]), doc_groups = []\<rparr>" 2 5 zero_report]
  by (simp add: doc_dec_def group_ok_def demo_group_def add_groups_def zero_report_def)

theorem decode_groups_bad_witness:
  "fst (decodeGroups 1 doc_dec 5
     \<lparr>doc_keys = [], doc_cur = Some (JGroups [\<lparr>rg_Files = [''/a''], rg_FileLen = 1\<rparr>]), doc_groups = []\<rparr>
     zero_report) = Some (RepFewFiles 0 1)"
  using decode_groups_bad [OF _ yields_Nil, of doc_dec
      "\<lparr>doc_keys = [], doc_cur = Some (JGroups [\<lparr>rg_Files = [''/a''], rg_FileLen = 1\<rparr>]), doc_groups = []\<rparr>"
      "\<lparr>doc_keys = [], doc_cur = Some (JGroups [\<lparr>rg_Files = [''/a''], rg_FileLen = 1\<rparr>]),
        doc_groups = [\<lparr>rg_Files = [''/a''], rg_FileLen = 1\<rparr>]\<rparr>" "\<lparr>rg_Files = [''/a''], rg_FileLen = 1\<rparr>" _ 1 5 zero_report]
  by (simp add: doc_dec_def group_ok_def zero_report_def)

subsection \<open>The bound of the loop\<close>

text \<open>What the code relies on to get to the end of a report: decoding a group uses up input.\<close>

definition decode_progress :: "'d jdec \<Rightarrow> ('d \<Rightarrow> nat) \<Rightarrow> bool" where
  "decode_progress J left \<longleftrightarrow>
     (\<forall>d g d'. jd_more J d \<longrightarrow> jd_decode_group J d = (Inr g, d') \<longrightarrow> left d' < left d)"

lemma add_group_no_fuel: "add_group keep g r \<noteq> Inl RepFuel"
  by (simp add: add_group_def Let_def)

lemma groups_loop_enough:
  assumes "decode_progress J left"
  shows "left d < fuel \<Longrightarrow> fuel \<le> fuel' \<Longrightarrow>
    fst (groups_loop fuel J keep d r) \<noteq> Some RepFuel \<and> groups_loop fuel' J keep d r = groups_loop fuel J keep d r"
proof (induction fuel arbitrary: fuel' d r)
  case (Suc fuel)
  obtain k where k: "fuel' = Suc k" "fuel \<le> k" using Suc.prems(2) by (cases fuel') auto
  have step: "left d' < fuel" if "jd_more J d" "jd_decode_group J d = (Inr g, d')" for g d'
    using assms Suc.prems(1) that unfolding decode_progress_def by fastforce
  show ?case
    using Suc.IH [OF step k(2)] add_group_no_fuel [of keep _ r] k(1)
    by (auto split: prod.splits sum.splits option.splits)
qed simp

lemma decodeGroups_enough:
  assumes "decode_progress J left" "\<And>d. left d \<le> n" "n < fuel"
  shows "fst (decodeGroups fuel J keep d r) \<noteq> Some RepFuel \<and>
    decodeGroups fuel J keep d r = decodeGroups (Suc n) J keep d r"
proof -
  have "left x < Suc n" for x using assms(2) [of x] by simp
  then show ?thesis
    using groups_loop_enough [OF assms(1), of _ "Suc n" fuel keep r] assms(3)
    by (auto simp: decodeGroups_def split: prod.splits option.splits)
qed

text \<open>
  C24. A decode always ends: over a decoder for which every decoded group uses up input, the loop over the
  groups never runs into the bound of the model, and any larger bound gives the same report.
\<close>

theorem decode_terminates:
  assumes "decode_progress J left" "\<And>d. left d \<le> n" "n < fuel"
  shows "fst (decodeGroups fuel J keep d r) \<noteq> Some RepFuel \<and>
    DecodeReport fuel J d0 keepGroups = DecodeReport (Suc n) J d0 keepGroups"
proof -
  have "decodeGroups fuel J = decodeGroups (Suc n) J"
    using decodeGroups_enough [OF assms] by blast
  then have "rd_field fuel J = rd_field (Suc n) J"
    unfolding rd_field_def by metis
  then show ?thesis
    using decodeGroups_enough [OF assms, THEN conjunct1] by (simp add: DecodeReport_def)
qed

text \<open>A decoder with one group to give, whose state says whether it has been given.\<close>

definition one_group :: "bool jdec" where
  "one_group = \<lparr>jd_object = (\<lambda>cb ds. cb ''groups'' ds), jd_end = (\<lambda>d. (None, d)),
     jd_decode_header = (\<lambda>d. (Inl ''type'', d)),
     jd_decode_group = (\<lambda>d. (Inr \<lparr>rg_Files = [''/a'', ''/b''], rg_FileLen = 1\<rparr>, False)),
     jd_skip = (\<lambda>d. (None, d)), jd_open = (\<lambda>d. (Inr True, d)), jd_more = id, jd_close = (\<lambda>d. (None, d))\<rparr>"

theorem decode_terminates_witness:
  "fst (decodeGroups 5 one_group 3 True zero_report) \<noteq> Some RepFuel"
proof -
  have "decode_progress one_group (\<lambda>b. if b then 1 else 0)" by (simp add: decode_progress_def one_group_def)
  then show ?thesis by (rule decode_terminates [where n = 1, THEN conjunct1]) simp_all
qed

end
