(* ===== verification/Log.thy ===== *)
theory Log
  imports Args Report
begin

text \<open>
  What the handlers of the program share: the errors it makes (one datatype, one constructor per
  \<open>errors.New\<close> or \<open>fmt.Errorf\<close> of the source, wrapped errors as arguments), the structured log lines
  of \<open>log/slog\<close> as values, and the sequencing of steps that log and may fail.
\<close>

subsection \<open>Errors\<close>

datatype goerr =
    ErrSys syserr                   \<comment> \<open>made by the operating system or a library\<close>
  | ErrCanceled                     \<comment> \<open>\<open>context.Canceled\<close>\<close>
  | ErrDeadlineExceeded             \<comment> \<open>\<open>context.DeadlineExceeded\<close>\<close>
  | ErrArgs args_error
  | ErrReport rep_error
  | ErrInvalidAction bytes
  | ErrInvalidTimeout bytes goerr
  | ErrNegativeTimeout duration
  | ErrArgSyntax bytes goerr
  | ErrDangerousFlag bytes bytes
  | ErrWrapperOwned bytes
  | ErrPositional bytes bytes
  | ErrVerifyCacheDir goerr
  | ErrMkdir goerr
  | ErrCreate goerr
  | ErrVerifyTimeout duration
  | ErrScanPathSyntax goerr
  | ErrArgsSyntax goerr
  | ErrActionArgsSyntax goerr
  | ErrPhaseTimeout bytes duration
  | ErrPhaseExec bytes goerr
  | ErrDecodeReport goerr
  | ErrActionNoOp bytes bytes
  | ErrRunOnceSkipped
  | ErrRunOnceInterrupted goerr

subsection \<open>Log lines\<close>

datatype level = Debug | Info | Warn | Error

text \<open>The numbers of \<open>slog.Level\<close>, which order the levels.\<close>

primrec level_num :: "level \<Rightarrow> int" where
  "level_num Debug = -4"
| "level_num Info = 0"
| "level_num Warn = 4"
| "level_num Error = 8"

instantiation level :: linorder
begin

definition less_eq_level :: "level \<Rightarrow> level \<Rightarrow> bool" where
  "less_eq_level a b \<longleftrightarrow> level_num a \<le> level_num b"

definition less_level :: "level \<Rightarrow> level \<Rightarrow> bool" where
  "less_level a b \<longleftrightarrow> level_num a < level_num b"

instance
proof
  fix a b c :: level
  show "a < b \<longleftrightarrow> a \<le> b \<and> \<not> b \<le> a" by (auto simp: less_level_def less_eq_level_def)
  show "a \<le> a" by (simp add: less_eq_level_def)
  show "a \<le> b \<Longrightarrow> b \<le> c \<Longrightarrow> a \<le> c" by (simp add: less_eq_level_def)
  show "a \<le> b \<Longrightarrow> b \<le> a \<Longrightarrow> a = b" by (cases a; cases b) (simp_all add: less_eq_level_def)
  show "a \<le> b \<or> b \<le> a" by (auto simp: less_eq_level_def)
qed

end

datatype logv =
    VStr bytes
  | VInt int
  | VBool bool
  | VDur duration
  | VErr goerr
  | VArgs "bytes list"

type_synonym attrs = "(bytes \<times> logv) list"

record logline =
  l_level :: level
  l_msg :: bytes
  l_attrs :: attrs

definition logl :: "level \<Rightarrow> bytes \<Rightarrow> attrs \<Rightarrow> logline" where
  "logl lv msg as = \<lparr>l_level = lv, l_msg = msg, l_attrs = as\<rparr>"

definition attr :: "logline \<Rightarrow> bytes \<Rightarrow> logv option" where
  "attr l k = map_of (l_attrs l) k"

definition at_level :: "level \<Rightarrow> logline list \<Rightarrow> logline list" where
  "at_level lv ls = filter (\<lambda>l. l_level l = lv) ls"

lemma logl_simps [simp]:
  "l_level (logl lv msg as) = lv"
  "l_msg (logl lv msg as) = msg"
  "l_attrs (logl lv msg as) = as"
  by (simp_all add: logl_def)

lemma at_level_simps [simp]:
  "at_level lv [] = []"
  "at_level lv (l # ls) = (if l_level l = lv then l # at_level lv ls else at_level lv ls)"
  "at_level lv (ls @ ms) = at_level lv ls @ at_level lv ms"
  by (simp_all add: at_level_def)

subsection \<open>Steps that log and may fail\<close>

type_synonym 'a logged = "logline list \<times> (goerr + 'a)"

definition log_ok :: "'a \<Rightarrow> 'a logged" where
  "log_ok a = ([], Inr a)"

definition log_fail :: "logline \<Rightarrow> goerr \<Rightarrow> 'a logged" where
  "log_fail l e = ([l], Inl e)"

definition log_bind :: "'a logged \<Rightarrow> ('a \<Rightarrow> 'b logged) \<Rightarrow> 'b logged" where
  "log_bind m f =
     (case m of
        (ls, Inl e) \<Rightarrow> (ls, Inl e)
      | (ls, Inr a) \<Rightarrow> (case f a of (ms, r) \<Rightarrow> (ls @ ms, r)))"

lemma log_bind_simps [simp]:
  "log_bind (ls, Inl e) f = (ls, Inl e)"
  "log_bind (ls, Inr a) f = (ls @ fst (f a), snd (f a))"
  "log_bind (log_ok a) f = f a"
  "log_bind (log_fail l e) f = log_fail l e"
  by (simp_all add: log_bind_def log_ok_def log_fail_def split: prod.splits)

lemma log_simps [simp]:
  "fst (log_ok a) = []" "snd (log_ok a) = Inr a"
  "fst (log_fail l e) = [l]" "snd (log_fail l e) = Inl e"
  by (simp_all add: log_ok_def log_fail_def)

lemma log_bind_Inr:
  "snd (log_bind m f) = Inr b \<longleftrightarrow> (\<exists>a. snd m = Inr a \<and> snd (f a) = Inr b)"
  by (cases m; cases "snd m") auto

text \<open>
  The logging discipline of the startup code: a failure is logged by exactly one error line, with the
  given \<open>outcome\<close> tag, and a success logs none.
\<close>

definition one_error :: "bytes \<Rightarrow> 'a logged \<Rightarrow> bool" where
  "one_error tag m \<longleftrightarrow>
     (case snd m of
        Inl e \<Rightarrow> (\<exists>l. at_level Error (fst m) = [l] \<and> attr l ''outcome'' = Some (VStr tag))
      | Inr _ \<Rightarrow> at_level Error (fst m) = [])"

lemma one_error_ok [simp]: "one_error tag (log_ok a)"
  by (simp add: one_error_def)

lemma one_error_fail [simp]:
  "one_error tag (log_fail l e) \<longleftrightarrow> l_level l = Error \<and> attr l ''outcome'' = Some (VStr tag)"
  by (auto simp: one_error_def)

lemma one_error_bind:
  "one_error tag m \<Longrightarrow> (\<And>a. snd m = Inr a \<Longrightarrow> one_error tag (f a)) \<Longrightarrow> one_error tag (log_bind m f)"
  by (cases m; cases "snd m") (auto simp: one_error_def split: sum.splits)

text \<open>The same step over a list of inputs, in order, stopping at the first failure.\<close>

fun log_each :: "('a \<Rightarrow> unit logged) \<Rightarrow> 'a list \<Rightarrow> unit logged" where
  "log_each f [] = log_ok ()"
| "log_each f (x # xs) = log_bind (f x) (\<lambda>_. log_each f xs)"

lemma log_each_ok: "snd (log_each f xs) = Inr () \<longleftrightarrow> list_all (\<lambda>x. snd (f x) = Inr ()) xs"
  by (induction xs) (auto simp: log_bind_Inr)

lemma log_each_one_error: "(\<And>x. one_error tag (f x)) \<Longrightarrow> one_error tag (log_each f xs)"
  by (induction xs) (auto intro: one_error_bind)

end
