(* ===== verification/Outcome.thy ===== *)
theory Outcome
  imports Log
begin

text \<open>
  \<open>outcome.go\<close> and \<open>phaseContext\<close> of \<open>scheduler.go\<close>: contexts with deadlines and cancellation, the
  classification of a finished subprocess (\<open>classifyExecOutcome\<close>) and of a one-shot run
  (\<open>classifyRunOnceOutcome\<close>).

  A context is the instant at which it is done, if ever, with its error and cause; \<open>Err()\<close> at an
  instant reads it. Go samples the clock at every call, so a classification gets the instant of each.
\<close>

subsection \<open>Contexts\<close>

type_synonym instant = int

datatype ctxerr = Canceled | DeadlineExceeded

record context_t =
  c_done :: "(instant \<times> ctxerr) option"
  c_cause :: goerr

definition ctx_Err :: "context_t \<Rightarrow> instant \<Rightarrow> ctxerr option" where
  "ctx_Err c t = (case c_done c of Some (t0, e) \<Rightarrow> if t0 \<le> t then Some e else None | None \<Rightarrow> None)"

text \<open>
  \<open>context.WithTimeout\<close> at instant \<open>now\<close>: done with the parent or at the deadline, whichever is first.
\<close>

definition with_timeout :: "context_t \<Rightarrow> duration \<Rightarrow> instant \<Rightarrow> context_t" where
  "with_timeout c d now =
     (case c_done c of
        Some (t0, e) \<Rightarrow> if t0 \<le> now + d then c
                        else \<lparr>c_done = Some (now + d, DeadlineExceeded), c_cause = ErrDeadlineExceeded\<rparr>
      | None \<Rightarrow> \<lparr>c_done = Some (now + d, DeadlineExceeded), c_cause = ErrDeadlineExceeded\<rparr>)"

text \<open>
  The cancel function \<open>phaseContext\<close> returns is deferred, so it runs after the last use of the
  context: \<open>context.WithCancel\<close> is done exactly when its parent is.
\<close>

definition phaseContext :: "context_t \<Rightarrow> duration \<Rightarrow> instant \<Rightarrow> context_t" where
  "phaseContext ctx timeout now = (if timeout \<le> 0 then ctx else with_timeout ctx timeout now)"

subsection \<open>Phase outcomes\<close>

datatype phaseOutcome = outcomeSuccess | outcomeTimeout | outcomeShutdown | outcomeExecError

primrec outcome_String :: "phaseOutcome \<Rightarrow> bytes" where
  "outcome_String outcomeSuccess = ''success''"
| "outcome_String outcomeTimeout = ''timeout''"
| "outcome_String outcomeShutdown = ''shutdown''"
| "outcome_String outcomeExecError = ''exec_error''"

text \<open>The three calls of \<open>Err()\<close> happen at the instants \<open>t1\<close>, \<open>t2\<close>, \<open>t3\<close>.\<close>

definition classifyExecOutcome ::
  "context_t \<Rightarrow> context_t \<Rightarrow> instant \<times> instant \<times> instant \<Rightarrow> goerr option \<Rightarrow> phaseOutcome" where
  "classifyExecOutcome ctx phaseCtx ts runErr =
     (case ts of (t1, t2, t3) \<Rightarrow>
        if runErr = None then outcomeSuccess
        else if ctx_Err phaseCtx t1 = Some DeadlineExceeded \<and> ctx_Err ctx t2 = None then outcomeTimeout
        else if ctx_Err ctx t3 \<noteq> None then outcomeShutdown
        else outcomeExecError)"

subsection \<open>Run-once outcomes\<close>

datatype runOnceOutcome = runOnceOK | runOnceFailed | runOnceSkipped | runOnceInterrupted

definition classifyRunOnceOutcome :: "bool \<Rightarrow> goerr option \<Rightarrow> ctxerr option \<Rightarrow> runOnceOutcome" where
  "classifyRunOnceOutcome did_run runErr ctxErr =
     (if runErr \<noteq> None then runOnceFailed
      else if \<not> did_run then runOnceSkipped
      else if ctxErr \<noteq> None then runOnceInterrupted
      else runOnceOK)"

subsection \<open>The classification is exact\<close>

definition done_by :: "context_t \<Rightarrow> instant \<Rightarrow> bool" where
  "done_by c t \<longleftrightarrow> (\<exists>t0 e. c_done c = Some (t0, e) \<and> t0 \<le> t)"

lemma ctx_Err_done: "ctx_Err c t \<noteq> None \<longleftrightarrow> done_by c t"
  by (auto simp: ctx_Err_def done_by_def split: option.splits)

lemma done_by_mono: "done_by c t \<Longrightarrow> t \<le> t' \<Longrightarrow> done_by c t'"
  by (auto simp: done_by_def)

lemma phase_deadline:
  "t1 \<le> t2 \<Longrightarrow>
     ctx_Err (phaseContext ctx timeout t0) t1 = Some DeadlineExceeded \<and> ctx_Err ctx t2 = None \<longleftrightarrow>
     0 < timeout \<and> t0 + timeout \<le> t1 \<and> \<not> done_by ctx t2"
  by (cases "c_done ctx")
     (auto simp: ctx_Err_def phaseContext_def with_timeout_def done_by_def split: if_splits)

text \<open>
  C25. The classification of a phase, exactly. A failed subprocess is a timeout only when a positive
  timeout elapsed since the phase began while the parent was still alive; otherwise it is a shutdown
  if the parent is done, and an execution error if not. With \<open>SCAN_TIMEOUT=0\<close> there is no timeout.
\<close>

theorem classify_exact:
  assumes "t1 \<le> t2" "t2 \<le> t3"
  shows "classifyExecOutcome ctx (phaseContext ctx timeout t0) (t1, t2, t3) runErr =
    (if runErr = None then outcomeSuccess
     else if 0 < timeout \<and> t0 + timeout \<le> t1 \<and> \<not> done_by ctx t2 then outcomeTimeout
     else if done_by ctx t3 then outcomeShutdown else outcomeExecError)"
  using phase_deadline [OF assms(1), of ctx timeout t0] ctx_Err_done [of ctx t3]
  by (simp add: classifyExecOutcome_def)

theorem classify_exact_witness:
  "classifyExecOutcome \<lparr>c_done = Some (50, Canceled), c_cause = ErrCanceled\<rparr>
     (phaseContext \<lparr>c_done = Some (50, Canceled), c_cause = ErrCanceled\<rparr> 10 0) (12, 12, 13) (Some (ErrSys ''killed''))
   = outcomeTimeout"
  using classify_exact [of 12 12 13 "\<lparr>c_done = Some (50, Canceled), c_cause = ErrCanceled\<rparr>" 10 0]
  by (simp add: done_by_def)

end
