(* ===== verification/Config.thy ===== *)
theory Config
  imports Outcome
begin

text \<open>
  \<open>config.go\<close>: reading and validating the settings. The environment is third-party territory: the
  record \<open>envp\<close> holds what \<open>envx\<close>, \<open>os.Getenv\<close> and \<open>scheduler.ParseInterval\<close> return. Every gate returns
  the log lines it wrote and either its error or its result.
\<close>

subsection \<open>Settings\<close>

datatype runMode = modeBuiltin | modeExternal | modeOnce

primrec runMode_String :: "runMode \<Rightarrow> bytes" where
  "runMode_String modeBuiltin = ''built-in''"
| "runMode_String modeExternal = ''external''"
| "runMode_String modeOnce = ''once''"

datatype action = actionGroup | actionRemove | actionLink | actionDedupe

primrec action_String :: "action \<Rightarrow> bytes" where
  "action_String actionGroup = ''group''"
| "action_String actionRemove = ''remove''"
| "action_String actionLink = ''link''"
| "action_String actionDedupe = ''dedupe''"

definition validActions :: "action list" where
  "validActions = [actionGroup, actionRemove, actionLink, actionDedupe]"

definition parseAction :: "bytes \<Rightarrow> goerr + action" where
  "parseAction s =
     (case find (\<lambda>a. action_String a = s) validActions of
        Some a \<Rightarrow> Inr a
      | None \<Rightarrow> Inl (ErrInvalidAction s))"

record config =
  ScanPath :: bytes
  cfgArgs :: bytes
  Action :: action
  ActionArgs :: bytes
  Interval :: duration
  PhaseTimeout :: duration
  Mode :: runMode

abbreviation second :: duration where "second \<equiv> 1000000000"
abbreviation hour :: duration where "hour \<equiv> 3600 * second"

definition scanDir :: bytes where "scanDir = ''/scandir''"
definition cacheDir :: bytes where "cacheDir = ''/cache''"
definition lockFile :: bytes where "lockFile = cacheDir @ ''/.fclones.lock''"
definition stampFile :: bytes where "stampFile = cacheDir @ ''/.docker-fclones-scheduler-last-run''"
definition streamCapBytes :: int where "streamCapBytes = 1048576"
definition logDetailCapBytes :: int where "logDetailCapBytes = 64 * 1024"
definition defaultInterval :: duration where "defaultInterval = 3 * hour"
definition defaultScanTimeout :: duration where "defaultScanTimeout = 12 * hour"

subsection \<open>The environment\<close>

text \<open>
  A failed \<open>envx.DurationStrict\<close>: \<open>Some v\<close> is an \<open>envx.ParseError\<close> carrying the rejected value, and the
  text of the error. \<open>None\<close> as a duration stands for an unset variable. The modes are those of
  \<open>scheduler.ParseInterval\<close>.
\<close>

datatype sched_mode = ModeInterval | ModeExternal | ModeOnce

record envp =
  env_String :: "bytes \<Rightarrow> bytes"
  env_DurationStrict :: "bytes \<Rightarrow> (bytes option \<times> syserr) + duration option"
  env_Getenv :: "bytes \<Rightarrow> bytes"
  sched_ParseInterval :: "bytes \<Rightarrow> duration \<Rightarrow> sched_mode \<times> duration"
  show_duration :: "duration \<Rightarrow> bytes"
  slog_ParseLevel :: "bytes \<Rightarrow> level option"
  unicode :: unicode_tables

text \<open>\<open>cmp.Or\<close> on strings: the first that is not empty.\<close>

definition cmp_Or :: "bytes \<Rightarrow> bytes \<Rightarrow> bytes" where
  "cmp_Or a b = (if a \<noteq> [] then a else b)"

definition config_error :: "(bytes \<times> logv)" where
  "config_error = (''outcome'', VStr ''config_error'')"

text \<open>\<open>setupLogger\<close>: the level and the warning for one it does not know.\<close>

definition setupLogger :: "envp \<Rightarrow> logline list \<times> level" where
  "setupLogger E =
     (let raw = env_String E ''LOG_LEVEL'' in
      case slog_ParseLevel E raw of
        Some lv \<Rightarrow> ([], lv)
      | None \<Rightarrow> ([logl Warn ''unrecognized LOG_LEVEL, defaulting to info'' [(''value'', VStr raw)]], Info))"

definition rejectedValue :: "bytes option \<times> syserr \<Rightarrow> bytes" where
  "rejectedValue err = (case fst err of Some v \<Rightarrow> v | None \<Rightarrow> [])"

definition loadScanTimeout :: "envp \<Rightarrow> duration logged" where
  "loadScanTimeout E =
     (case env_DurationStrict E ''SCAN_TIMEOUT'' of
        Inl err \<Rightarrow>
          let raw = rejectedValue err in
          log_fail (logl Error ''invalid SCAN_TIMEOUT''
              [(''value'', VStr raw), config_error, (''error'', VErr (ErrSys (snd err)))])
            (ErrInvalidTimeout raw (ErrSys (snd err)))
      | Inr None \<Rightarrow> log_ok defaultScanTimeout
      | Inr (Some scanTimeout) \<Rightarrow>
          if scanTimeout < 0
          then log_fail (logl Error ''invalid SCAN_TIMEOUT''
              [(''value'', VStr (show_duration E scanTimeout)), config_error,
               (''error'', VStr ''must be zero (no timeout) or a positive duration'')])
            (ErrNegativeTimeout scanTimeout)
          else log_ok scanTimeout)"

definition parseInterval :: "envp \<Rightarrow> bytes \<Rightarrow> duration \<times> runMode" where
  "parseInterval E raw =
     (case sched_ParseInterval E raw defaultInterval of
        (ModeExternal, i) \<Rightarrow> (i, modeExternal)
      | (ModeOnce, i) \<Rightarrow> (i, modeOnce)
      | (_, i) \<Rightarrow> (i, modeBuiltin))"

subsection \<open>The argument gates\<close>

definition dangerousFlags :: "bytes list" where
  "dangerousFlags = [''--transform'', ''--in-place'', ''--no-copy'']"

definition wrapperOwnedFlags :: "bytes list" where
  "wrapperOwnedFlags = [''--format'', ''--cache'']"

definition parseArgString :: "bytes \<Rightarrow> bytes \<Rightarrow> bytes list logged" where
  "parseArgString raw envVar =
     (case Parse raw of
        Inl e \<Rightarrow> log_fail (logl Error ''invalid argument syntax''
              [(''env'', VStr envVar), config_error, (''error'', VErr (ErrArgs e))])
            (ErrArgSyntax envVar (ErrArgs e))
      | Inr parsed \<Rightarrow> log_ok parsed)"

text \<open>A flag in a token: the token itself or a value attached with \<open>=\<close>.\<close>

definition is_flag :: "bytes \<Rightarrow> bytes \<Rightarrow> bool" where
  "is_flag lower flag \<longleftrightarrow> lower = flag \<or> has_prefix lower (flag @ ''='')"

fun dangerous_loop :: "unicode_tables \<Rightarrow> bytes \<Rightarrow> bytes list \<Rightarrow> unit logged" where
  "dangerous_loop U envVar [] = log_ok ()"
| "dangerous_loop U envVar (arg # args) =
     (let lower = to_lower U arg in
      case find (is_flag lower) dangerousFlags of
        Some flag \<Rightarrow> log_fail (logl Error ''dangerous flag not allowed''
              [(''flag'', VStr flag), (''env'', VStr envVar), config_error])
            (ErrDangerousFlag flag envVar)
      | None \<Rightarrow> dangerous_loop U envVar args)"

definition rejectDangerousArgs :: "unicode_tables \<Rightarrow> bytes \<Rightarrow> bytes \<Rightarrow> unit logged" where
  "rejectDangerousArgs U raw envVar = log_bind (parseArgString raw envVar) (dangerous_loop U envVar)"

definition wrapper_owned :: "unicode_tables \<Rightarrow> bytes \<Rightarrow> bool" where
  "wrapper_owned U arg =
     (let lower = to_lower U arg in
      (has_prefix lower ''-f'' \<and> \<not> has_prefix lower ''--'') \<or> list_ex (is_flag lower) wrapperOwnedFlags)"

fun wrapper_loop :: "unicode_tables \<Rightarrow> bytes list \<Rightarrow> unit logged" where
  "wrapper_loop U [] = log_ok ()"
| "wrapper_loop U (arg # args) =
     (if wrapper_owned U arg
      then log_fail (logl Error ''wrapper-owned flag not allowed''
              [(''flag'', VStr arg), (''env'', VStr ''FCLONES_ARGS''), config_error])
            (ErrWrapperOwned arg)
      else wrapper_loop U args)"

definition rejectWrapperOwnedArgs :: "unicode_tables \<Rightarrow> bytes \<Rightarrow> unit logged" where
  "rejectWrapperOwnedArgs U raw = log_bind (parseArgString raw ''FCLONES_ARGS'') (wrapper_loop U)"

definition looks_flag :: "bytes \<Rightarrow> bool" where
  "looks_flag arg \<longleftrightarrow> has_prefix arg ''-'' \<and> arg \<noteq> ''--''"

fun positional_loop :: "bytes \<Rightarrow> bool \<Rightarrow> bytes list \<Rightarrow> unit logged" where
  "positional_loop envVar prevIsFlag [] = log_ok ()"
| "positional_loop envVar prevIsFlag (arg # args) =
     (let isFlag = looks_flag arg in
      if \<not> isFlag \<and> \<not> prevIsFlag
      then log_fail (logl Error ''positional argument not allowed''
              [(''arg'', VStr arg), (''env'', VStr envVar), config_error])
            (ErrPositional arg envVar)
      else positional_loop envVar isFlag args)"

definition rejectPositionalArgs :: "bytes \<Rightarrow> bytes \<Rightarrow> unit logged" where
  "rejectPositionalArgs raw envVar = log_bind (parseArgString raw envVar) (positional_loop envVar False)"

text \<open>\<open>strings.EqualFold(s, "true")\<close>: no other rune folds to a letter of that word.\<close>

definition unsafe_allowed :: "envp \<Rightarrow> bool" where
  "unsafe_allowed E \<longleftrightarrow> map lower_byte (cmp_Or (env_String E ''ALLOW_UNSAFE_ARGS'') ''false'') = ''true''"

definition validateArgEnvs :: "envp \<Rightarrow> bytes \<Rightarrow> bytes \<Rightarrow> bytes \<Rightarrow> unit logged" where
  "validateArgEnvs E argsStr actionArgs scanPaths =
     (let warn = (if unsafe_allowed E
                  then [logl Warn ''unsafe flags allowed, command injection guardrails disabled''
                          [(''env'', VStr ''ALLOW_UNSAFE_ARGS'')]] else []) in
      log_bind (warn, Inr ()) (\<lambda>_.
      log_bind
        (log_each (\<lambda>(raw, env).
            if unsafe_allowed E then log_bind (parseArgString raw env) (\<lambda>_. log_ok ())
            else rejectDangerousArgs (unicode E) raw env)
          [(argsStr, ''FCLONES_ARGS''), (actionArgs, ''FCLONES_ACTION_ARGS''),
           (scanPaths, ''FCLONES_SCAN_PATHS'')]) (\<lambda>_.
      log_bind (rejectWrapperOwnedArgs (unicode E) argsStr) (\<lambda>_.
      log_each (\<lambda>(raw, env). rejectPositionalArgs raw env)
        [(argsStr, ''FCLONES_ARGS''), (actionArgs, ''FCLONES_ACTION_ARGS'')]))))"

text \<open>A value that parses to no token is only warned about.\<close>

definition warn_no_targets :: "bytes \<Rightarrow> unit logged" where
  "warn_no_targets scanPaths =
     (case Parse scanPaths of
        Inr [] \<Rightarrow> ([logl Warn ''FCLONES_SCAN_PATHS resolved to no scan targets; fclones will have no path to scan''
                     [(''value'', VStr scanPaths)]], Inr ())
      | _ \<Rightarrow> log_ok ())"

definition loadConfig :: "envp \<Rightarrow> config logged" where
  "loadConfig E =
     (let actionStr = cmp_Or (env_String E ''FCLONES_ACTION'') ''group'' in
      case parseAction actionStr of
        Inl e \<Rightarrow> log_fail (logl Error ''invalid FCLONES_ACTION''
              [(''action'', VStr actionStr), config_error, (''error'', VErr e)]) e
      | Inr parsedAction \<Rightarrow>
          let scanPaths = cmp_Or (env_String E ''FCLONES_SCAN_PATHS'') scanDir;
              argsStr = env_String E ''FCLONES_ARGS'';
              actionArgs = env_String E ''FCLONES_ACTION_ARGS'' in
          log_bind (validateArgEnvs E argsStr actionArgs scanPaths) (\<lambda>_.
          log_bind (warn_no_targets scanPaths) (\<lambda>_.
          log_bind (loadScanTimeout E) (\<lambda>scanTimeout.
            case parseInterval E (env_Getenv E ''SCAN_INTERVAL'') of
              (interval, mode) \<Rightarrow>
                log_ok \<lparr>ScanPath = scanPaths, cfgArgs = argsStr, Action = parsedAction,
                  ActionArgs = actionArgs, Interval = interval, PhaseTimeout = scanTimeout, Mode = mode\<rparr>))))"

subsection \<open>The cache directory\<close>

text \<open>The file system calls of \<open>writeProbe\<close>: the error of each, if any.\<close>

record probe_fs =
  fs_MkdirAll :: "bytes \<Rightarrow> syserr option"
  fs_Create :: "bytes \<Rightarrow> syserr option"

definition writeProbe :: "probe_fs \<Rightarrow> bytes \<Rightarrow> goerr option" where
  "writeProbe F dir =
     (case fs_MkdirAll F dir of
        Some e \<Rightarrow> Some (ErrMkdir (ErrSys e))
      | None \<Rightarrow>
          (case fs_Create F (dir @ ''/.write_test'') of
             Some e \<Rightarrow> Some (ErrCreate (ErrSys e))
           | None \<Rightarrow> None))"

text \<open>
  The select of \<open>verifyDirWithProbe\<close>. The probe sends its result at the instant \<open>fin\<close>, or never (a hung
  file system); the context is done at its own instant. \<open>sel\<close> is the instant at which the select looks at
  the two cases, and whether Go picks the probe when both are ready; if none is ready then, the first
  that becomes ready is taken. \<open>None\<close>: neither case ever becomes ready, and the call does not return.
\<close>

definition verifyDirWithProbe ::
  "context_t \<Rightarrow> instant \<Rightarrow> duration \<Rightarrow> instant \<times> bool \<Rightarrow> instant option \<Rightarrow> goerr option \<Rightarrow> goerr option option" where
  "verifyDirWithProbe ctx now timeout sel fin res =
     (let c = with_timeout ctx timeout now in
      case (fin, c_done c) of
        (None, None) \<Rightarrow> None
      | (Some tp, None) \<Rightarrow> Some res
      | (None, Some _) \<Rightarrow> Some (Some (ErrVerifyTimeout timeout))
      | (Some tp, Some (td, _)) \<Rightarrow>
          if (if tp \<le> fst sel \<and> td \<le> fst sel \<or> tp = td then snd sel else tp < td)
          then Some res else Some (Some (ErrVerifyTimeout timeout)))"

definition verifyDir ::
  "probe_fs \<Rightarrow> context_t \<Rightarrow> instant \<Rightarrow> instant \<times> bool \<Rightarrow> instant option \<Rightarrow> bytes \<Rightarrow> duration \<Rightarrow> goerr option option" where
  "verifyDir F ctx now sel fin dir timeout =
     verifyDirWithProbe ctx now timeout sel fin (writeProbe F dir)"

definition verifyCacheDir ::
  "probe_fs \<Rightarrow> context_t \<Rightarrow> instant \<Rightarrow> instant \<times> bool \<Rightarrow> instant option \<Rightarrow> unit logged option" where
  "verifyCacheDir F ctx now sel fin =
     (case verifyDir F ctx now sel fin cacheDir (10 * second) of
        None \<Rightarrow> None
      | Some (Some e) \<Rightarrow> Some ([], Inl (ErrVerifyCacheDir e))
      | Some None \<Rightarrow> Some ([logl Debug ''cache directory verified'' [(''path'', VStr cacheDir)]], Inr ()))"

subsection \<open>The gates as one interface\<close>

text \<open>
  Every gate splits its value into tokens and judges them; it accepts exactly when the value parses and
  the tokens are acceptable, and it logs a refusal once. What \<open>validateArgEnvs\<close> makes of several values
  follows for all gates at once.
\<close>

locale flag_gate =
  fixes gate :: "bytes \<Rightarrow> bytes \<Rightarrow> unit logged"
    and acceptable :: "bytes list \<Rightarrow> bool"
  assumes exact: "snd (gate raw env) = Inr () \<longleftrightarrow> (\<exists>ts. Parse raw = Inr ts \<and> acceptable ts)"
    and logs: "one_error ''config_error'' (gate raw env)"
begin

lemma all_exact:
  "snd (log_each (\<lambda>(raw, env). gate raw env) ps) = Inr () \<longleftrightarrow>
     list_all (\<lambda>(raw, env). \<exists>ts. Parse raw = Inr ts \<and> acceptable ts) ps"
  by (simp add: log_each_ok case_prod_unfold exact)

lemma all_logs: "one_error ''config_error'' (log_each (\<lambda>(raw, env). gate raw env) ps)"
  by (rule log_each_one_error) (simp add: case_prod_unfold logs)

lemma bad_syntax: "Parse raw = Inl e \<Longrightarrow> snd (gate raw env) \<noteq> Inr ()"
  by (simp add: exact)

end

lemma config_error_attr [simp]:
  "attr (logl lv m [a, b, config_error]) ''outcome'' =
     (case map_of [a, b] ''outcome'' of Some v \<Rightarrow> Some v | None \<Rightarrow> Some (VStr ''config_error''))"
  "attr (logl lv m [a, config_error, b]) ''outcome'' =
     (case map_of [a] ''outcome'' of Some v \<Rightarrow> Some v | None \<Rightarrow> Some (VStr ''config_error''))"
  by (cases a; cases b; auto simp: attr_def config_error_def)+

lemma parseArgString_ok: "snd (parseArgString raw env) = Inr ts \<longleftrightarrow> Parse raw = Inr ts"
  by (auto simp: parseArgString_def split: sum.splits)

lemma parseArgString_logs: "one_error ''config_error'' (parseArgString raw env)"
  by (auto simp: parseArgString_def split: sum.splits)

text \<open>A gate is the split followed by a judgement of the tokens.\<close>

lemma gate_of_loop:
  assumes "\<And>env ts. snd (loop env ts) = Inr () \<longleftrightarrow> acceptable ts"
    and "\<And>env ts. one_error ''config_error'' (loop env ts)"
    and "\<And>raw env. gate raw env = log_bind (parseArgString raw (name env)) (loop env)"
  shows "flag_gate gate acceptable"
  using assms
  by unfold_locales
    (auto simp: log_bind_Inr parseArgString_ok intro: one_error_bind parseArgString_logs)

definition dangerous :: "unicode_tables \<Rightarrow> bytes \<Rightarrow> bool" where
  "dangerous U arg \<longleftrightarrow> list_ex (is_flag (to_lower U arg)) dangerousFlags"

definition none_dangerous :: "unicode_tables \<Rightarrow> bytes list \<Rightarrow> bool" where
  "none_dangerous U ts \<longleftrightarrow> \<not> list_ex (dangerous U) ts"

definition none_owned :: "unicode_tables \<Rightarrow> bytes list \<Rightarrow> bool" where
  "none_owned U ts \<longleftrightarrow> \<not> list_ex (wrapper_owned U) ts"

text \<open>Every token that is no flag directly follows one that is.\<close>

definition only_flag_values :: "bytes list \<Rightarrow> bool" where
  "only_flag_values ts \<longleftrightarrow>
     list_all (\<lambda>i. looks_flag (ts ! i) \<or> 0 < i \<and> looks_flag (ts ! (i - 1))) [0..<length ts]"

lemma dangerous_loop_facts:
  "snd (dangerous_loop U env ts) = Inr () \<longleftrightarrow> none_dangerous U ts"
  "one_error ''config_error'' (dangerous_loop U env ts)"
proof -
  have f: "find P xs = None \<longleftrightarrow> \<not> list_ex P xs" for P :: "bytes \<Rightarrow> bool" and xs
    by (induction xs) auto
  show "snd (dangerous_loop U env ts) = Inr () \<longleftrightarrow> none_dangerous U ts"
  proof (induction ts)
    case (Cons t ts)
    then show ?case
      using f [of "is_flag (to_lower U t)" dangerousFlags]
      by (auto simp: none_dangerous_def dangerous_def Let_def split: option.splits)
  qed (simp add: none_dangerous_def)
  show "one_error ''config_error'' (dangerous_loop U env ts)"
    by (induction ts) (auto simp: Let_def split: option.splits)
qed

lemma wrapper_loop_facts:
  "snd (wrapper_loop U ts) = Inr () \<longleftrightarrow> none_owned U ts"
  "one_error ''config_error'' (wrapper_loop U ts)"
  by (induction ts) (auto simp: none_owned_def)

lemma positional_loop_facts:
  "snd (positional_loop env prev ts) = Inr () \<longleftrightarrow>
     (\<forall>i < length ts. looks_flag (ts ! i) \<or> (if i = 0 then prev else looks_flag (ts ! (i - 1))))"
  "one_error ''config_error'' (positional_loop env prev ts)"
proof -
  show "snd (positional_loop env prev ts) = Inr () \<longleftrightarrow>
     (\<forall>i < length ts. looks_flag (ts ! i) \<or> (if i = 0 then prev else looks_flag (ts ! (i - 1))))"
  proof (induction ts arbitrary: prev)
    case (Cons t ts)
    have "(\<forall>i < Suc n. P i) \<longleftrightarrow> P 0 \<and> (\<forall>i < n. P (Suc i))" for n and P :: "nat \<Rightarrow> bool"
      using less_Suc_eq_0_disj by auto
    with Cons show ?case
      by (auto simp: Let_def nth_Cons' split: if_splits)
  qed simp
  show "one_error ''config_error'' (positional_loop env prev ts)"
    by (induction ts arbitrary: prev) (auto simp: Let_def)
qed

interpretation dangerous_gate: flag_gate "rejectDangerousArgs U" "none_dangerous U" for U
  by (rule gate_of_loop [where name = id])
    (simp_all add: dangerous_loop_facts rejectDangerousArgs_def)

interpretation owned_gate: flag_gate "\<lambda>raw env. rejectWrapperOwnedArgs U raw" "none_owned U" for U
  by (rule gate_of_loop [where name = "\<lambda>_. ''FCLONES_ARGS''" and loop = "\<lambda>_. wrapper_loop U"])
    (simp_all add: wrapper_loop_facts rejectWrapperOwnedArgs_def)

interpretation positional_gate: flag_gate rejectPositionalArgs only_flag_values
proof (rule gate_of_loop [where name = id and loop = "\<lambda>env. positional_loop env False"])
  fix env ts
  have e: "(if i = 0 then False else looks_flag (ts ! (i - 1)))
      \<longleftrightarrow> 0 < i \<and> looks_flag (ts ! (i - 1))" for i by simp
  have "(\<forall>i<length ts. looks_flag (ts ! i) \<or> (if i = 0 then False else looks_flag (ts ! (i - 1))))
      \<longleftrightarrow> only_flag_values ts"
    by (simp only: e) (auto simp: only_flag_values_def list_all_iff)
  then show "snd (positional_loop env False ts) = Inr () \<longleftrightarrow> only_flag_values ts"
    by (simp add: positional_loop_facts)
qed (simp_all add: positional_loop_facts rejectPositionalArgs_def)

interpretation syntax_gate: flag_gate "\<lambda>raw env. log_bind (parseArgString raw env) (\<lambda>_. log_ok ())" "\<lambda>_. True"
  by (rule gate_of_loop [where name = id and loop = "\<lambda>_ _. log_ok ()"]) simp_all


subsection \<open>What an accepted configuration satisfies\<close>

definition args_accepted :: "envp \<Rightarrow> bytes \<Rightarrow> bytes \<Rightarrow> bytes \<Rightarrow> bool" where
  "args_accepted E argsStr actionArgs scanPaths \<longleftrightarrow>
     (case (Parse argsStr, Parse actionArgs, Parse scanPaths) of
        (Inr a, Inr b, Inr p) \<Rightarrow>
          none_owned (unicode E) a \<and> only_flag_values a \<and> only_flag_values b \<and>
          (if unsafe_allowed E then True else none_dangerous (unicode E) (a @ b @ p))
      | _ \<Rightarrow> False)"

lemma none_dangerous_append [simp]:
  "none_dangerous U (a @ b) \<longleftrightarrow> none_dangerous U a \<and> none_dangerous U b"
  by (auto simp: none_dangerous_def)

lemma validate_exact:
  "snd (validateArgEnvs E a b p) = Inr () \<longleftrightarrow> args_accepted E a b p"
proof -
  have w: "snd (log_bind (ls, Inr ()) f) = snd (f ())" for ls and f :: "unit \<Rightarrow> unit logged"
    by simp
  show ?thesis
    unfolding validateArgEnvs_def Let_def w
    by (cases "unsafe_allowed E"; cases "Parse a"; cases "Parse b"; cases "Parse p")
      (auto simp: log_bind_Inr args_accepted_def positional_gate.exact owned_gate.exact
        dangerous_gate.exact syntax_gate.exact parseArgString_ok)
qed

lemma validate_logs: "one_error ''config_error'' (validateArgEnvs E a b p)"
proof -
  have w: "one_error ''config_error'' (log_bind (ls, Inr ()) f)"
    if "one_error ''config_error'' (f ())" "at_level Error ls = []" for ls and f :: "unit \<Rightarrow> unit logged"
    using that by (auto simp: one_error_def split: sum.splits)
  show ?thesis
    unfolding validateArgEnvs_def Let_def
    by (intro w one_error_bind log_each_one_error owned_gate.logs positional_gate.all_logs)
      (auto simp: case_prod_unfold dangerous_gate.logs syntax_gate.logs)
qed

lemma load_iff:
  "snd (loadConfig E) = Inr cfg \<longleftrightarrow>
     (case parseAction (cmp_Or (env_String E ''FCLONES_ACTION'') ''group'') of
        Inl _ \<Rightarrow> False
      | Inr act \<Rightarrow>
          args_accepted E (env_String E ''FCLONES_ARGS'') (env_String E ''FCLONES_ACTION_ARGS'')
            (cmp_Or (env_String E ''FCLONES_SCAN_PATHS'') scanDir) \<and>
          ScanPath cfg = cmp_Or (env_String E ''FCLONES_SCAN_PATHS'') scanDir \<and>
          cfgArgs cfg = env_String E ''FCLONES_ARGS'' \<and> Action cfg = act \<and>
          ActionArgs cfg = env_String E ''FCLONES_ACTION_ARGS'' \<and>
          0 \<le> PhaseTimeout cfg \<and>
          (case env_DurationStrict E ''SCAN_TIMEOUT'' of
             Inr None \<Rightarrow> PhaseTimeout cfg = 12 * hour
           | Inr (Some d) \<Rightarrow> PhaseTimeout cfg = d
           | Inl _ \<Rightarrow> False) \<and>
          (Interval cfg, Mode cfg) = parseInterval E (env_Getenv E ''SCAN_INTERVAL''))"
proof (cases "parseAction (cmp_Or (env_String E ''FCLONES_ACTION'') ''group'')")
  case (Inl e)
  then show ?thesis by (simp add: loadConfig_def)
next
  case (Inr act)
  have w: "snd (warn_no_targets p) = Inr u" for p u
    by (auto simp: warn_no_targets_def split: sum.splits list.splits)
  have to: "snd (loadScanTimeout E) = Inr d \<longleftrightarrow> 0 \<le> d \<and>
      (case env_DurationStrict E ''SCAN_TIMEOUT'' of
         Inr None \<Rightarrow> d = 12 * hour | Inr (Some x) \<Rightarrow> d = x | Inl _ \<Rightarrow> False)" for d
    by (auto simp: loadScanTimeout_def Let_def defaultScanTimeout_def split: sum.splits option.splits)
  obtain iv md where pi: "parseInterval E (env_Getenv E ''SCAN_INTERVAL'') = (iv, md)" by fastforce
  show ?thesis
    unfolding loadConfig_def Let_def Inr sum.case log_bind_Inr validate_exact w to pi prod.case
    by (cases cfg) (auto simp: validate_exact w split: sum.splits option.splits)
qed

text \<open>
  C8. Which settings are accepted, exactly, and what comes out. The action is one of the four; all three
  argument values parse; \<open>FCLONES_ARGS\<close> holds no flag the wrapper owns; the two flag values hold no
  bare token except right after a flag; and unless \<open>ALLOW_UNSAFE_ARGS\<close> says \<open>true\<close>, no token of
  the three is a dangerous flag. The timeout is not negative (12 hours when unset).
\<close>

theorem config_exact:
  "snd (loadConfig E) = Inr cfg \<longleftrightarrow>
     (case parseAction (cmp_Or (env_String E ''FCLONES_ACTION'') ''group'') of
        Inl _ \<Rightarrow> False
      | Inr act \<Rightarrow>
          args_accepted E (env_String E ''FCLONES_ARGS'') (env_String E ''FCLONES_ACTION_ARGS'')
            (cmp_Or (env_String E ''FCLONES_SCAN_PATHS'') scanDir) \<and>
          ScanPath cfg = cmp_Or (env_String E ''FCLONES_SCAN_PATHS'') scanDir \<and>
          cfgArgs cfg = env_String E ''FCLONES_ARGS'' \<and> Action cfg = act \<and>
          ActionArgs cfg = env_String E ''FCLONES_ACTION_ARGS'' \<and>
          0 \<le> PhaseTimeout cfg \<and>
          (case env_DurationStrict E ''SCAN_TIMEOUT'' of
             Inr None \<Rightarrow> PhaseTimeout cfg = 12 * hour
           | Inr (Some d) \<Rightarrow> PhaseTimeout cfg = d
           | Inl _ \<Rightarrow> False) \<and>
          (Interval cfg, Mode cfg) = parseInterval E (env_Getenv E ''SCAN_INTERVAL''))"
  by (rule load_iff)

lemma load_logs: "one_error ''config_error'' (loadConfig E)"
proof -
  have w: "one_error ''config_error'' (warn_no_targets p)" for p
    by (auto simp: warn_no_targets_def one_error_def split: sum.splits list.splits)
  have to: "one_error ''config_error'' (loadScanTimeout E)"
    by (auto simp: loadScanTimeout_def Let_def split: sum.splits option.splits)
  show ?thesis
    by (auto simp: loadConfig_def Let_def split: sum.splits prod.splits
        intro!: one_error_bind validate_logs w to)
qed

text \<open>
  Each configuration failure is logged exactly once: \<open>loadConfig\<close> writes one error line, tagged
  \<open>config_error\<close>, when it fails and none when it succeeds.
\<close>

theorem config_logs_once: "one_error ''config_error'' (loadConfig E)"
  by (rule load_logs)


text \<open>
  C34. The positional gate, exactly: a flags-only value is accepted when it parses and every token that
  is no flag comes directly after a token that is one. Whether that flag takes a value is not asked.
\<close>

theorem positional_exact:
  "snd (rejectPositionalArgs raw env) = Inr () \<longleftrightarrow>
     (case Parse raw of
        Inl _ \<Rightarrow> False
      | Inr ts \<Rightarrow> list_all (\<lambda>i. looks_flag (ts ! i) \<or> 0 < i \<and> looks_flag (ts ! (i - 1))) [0..<length ts])"
  using positional_gate.exact [of raw env] by (auto simp: only_flag_values_def split: sum.splits)

lemma only_flag_values_two: "looks_flag f \<Longrightarrow> only_flag_values [f, t]"
  by (auto simp: only_flag_values_def upt_rec numeral_2_eq_2)

text \<open>
  A stray path does pass the gate: after a flag that takes no value, or one whose value is already
  attached with \<open>=\<close>, a bare token is accepted, whatever it is; fclones reads it as one more scan path.
\<close>

theorem positional_gap:
  assumes "t \<noteq> []" "utf8_valid t"
  shows "snd (rejectPositionalArgs (render [''--hidden'', t]) env) = Inr () \<and>
         snd (rejectPositionalArgs (render [''--name=x'', t]) env) = Inr ()"
proof -
  have "Parse (render [f, t]) = Inr [f, t]" if "is_ascii f" "f \<noteq> []" for f
    using assms that by (intro parse_roundtrip) (simp add: utf8_valid_ascii)
  then show ?thesis
    by (auto simp: positional_gate.exact only_flag_values_two looks_flag_def is_ascii_def byte_val_def
        RuneSelf_def)
qed

theorem positional_gap_witness:
  "snd (rejectPositionalArgs (render [''--hidden'', ''/other'']) ''FCLONES_ARGS'') = Inr ()"
  using positional_gap [of "''/other''" "''FCLONES_ARGS''"]
  by (simp add: utf8_valid_ascii ascii_simps)

text \<open>
  C35. Startup cannot hang on the cache directory: the check always returns, even when the probe never
  does. It succeeds only when the probe finished, within the ten seconds unless the select itself came
  later, and could create both the directory and a file in it; and it does succeed then, when the probe
  finished in time and the select was not late or picks the probe.
\<close>

theorem verify_returns:
  "\<exists>r. verifyCacheDir F ctx now sel fin = Some r \<and>
     (snd r = Inr () \<longrightarrow> (\<exists>tp. fin = Some tp \<and> tp \<le> max (fst sel) (now + 10 * second) \<and>
        fs_MkdirAll F ''/cache'' = None \<and> fs_Create F ''/cache/.write_test'' = None)) \<and>
     (\<forall>tp. fin = Some tp \<and> tp < now + 10 * second \<and> \<not> done_by ctx tp \<and>
         (snd sel \<or> fst sel < now + 10 * second \<and> \<not> done_by ctx (fst sel)) \<longrightarrow>
        (snd r = Inr () \<longleftrightarrow> fs_MkdirAll F ''/cache'' = None \<and> fs_Create F ''/cache/.write_test'' = None))"
proof -
  obtain td e where d: "c_done (with_timeout ctx (10 * second) now) = Some (td, e)"
    and td: "td \<le> now + 10 * second" "\<And>tp. tp < now + 10 * second \<Longrightarrow> \<not> done_by ctx tp \<Longrightarrow> tp < td"
  proof (cases "c_done ctx")
    case None
    then show ?thesis using that [of "now + 10 * second"] by (simp add: with_timeout_def)
  next
    case (Some p)
    then obtain a b where ab: "c_done ctx = Some (a, b)" by (cases p) auto
    show ?thesis
    proof (cases "a \<le> now + 10 * second")
      case True
      then show ?thesis using that [of a b] ab by (simp add: with_timeout_def done_by_def)
    next
      case False
      then show ?thesis
        using that [of "now + 10 * second"] ab by (simp add: with_timeout_def done_by_def)
    qed
  qed
  have wp: "writeProbe F cacheDir = None \<longleftrightarrow>
      fs_MkdirAll F ''/cache'' = None \<and> fs_Create F ''/cache/.write_test'' = None"
    by (auto simp: writeProbe_def cacheDir_def split: option.splits)
  have late: "fst sel < now + 10 * second \<Longrightarrow> \<not> done_by ctx (fst sel) \<Longrightarrow> \<not> td \<le> fst sel"
    using td(2) by (meson not_le)
  show ?thesis
    using td late d
    by (cases fin; cases "writeProbe F cacheDir")
      (auto simp: verifyCacheDir_def verifyDir_def verifyDirWithProbe_def wp [symmetric])
qed

theorem verify_returns_witness:
  "\<exists>r. verifyCacheDir \<lparr>fs_MkdirAll = \<lambda>_. None, fs_Create = \<lambda>_. None\<rparr>
     \<lparr>c_done = None, c_cause = ErrCanceled\<rparr> 0 (0, False) (Some 5) = Some r \<and> snd r = Inr ()"
  using verify_returns [of "\<lparr>fs_MkdirAll = \<lambda>_. None, fs_Create = \<lambda>_. None\<rparr>"
      "\<lparr>c_done = None, c_cause = ErrCanceled\<rparr>" 0 "(0, False)" "Some 5"]
  by (auto simp: done_by_def)

definition demo_env :: envp where
  "demo_env = \<lparr>env_String = (\<lambda>k. if k = ''FCLONES_ARGS'' then ''--rf-over 1'' else []),
     env_DurationStrict = (\<lambda>_. Inr None), env_Getenv = (\<lambda>_. []),
     sched_ParseInterval = (\<lambda>_ d. (ModeInterval, d)), show_duration = (\<lambda>_. []),
     slog_ParseLevel = (\<lambda>_. Some Info), unicode = no_unicode\<rparr>"

lemma demo_parse: "Parse ''--rf-over 1'' = Inr [''--rf-over'', ''1''] \<and> Parse [] = Inr [] \<and>
    Parse ''/scandir'' = Inr [''/scandir'']"
  using Parse_words [of "[''--rf-over'', ''1'']"] Parse_words [of "[]"] Parse_words [of "[''/scandir'']"]
  by (simp add: plain_token_def plain_rune_def ascii_simps)

lemma demo_accepted: "args_accepted demo_env ''--rf-over 1'' [] ''/scandir''"
proof -
  have l: "to_lower U s = s" if "s \<in> {''--rf-over'', ''1'', ''/scandir''}" for U s
    using that by (auto simp: to_lower_id lower_ascii_def ascii_simps)
  show ?thesis
    by (simp add: args_accepted_def demo_parse none_owned_def none_dangerous_def dangerous_def
        wrapper_owned_def l is_flag_def dangerousFlags_def wrapperOwnedFlags_def only_flag_values_two
        looks_flag_def only_flag_values_def Let_def upt_rec numeral_2_eq_2)
qed

lemma demo_loads: "snd (loadConfig demo_env) = Inr \<lparr>ScanPath = ''/scandir'', cfgArgs = ''--rf-over 1'',
     Action = actionGroup, ActionArgs = [], Interval = 3 * hour, PhaseTimeout = 12 * hour, Mode = modeBuiltin\<rparr>"
  using demo_accepted
  by (simp add: load_iff) (simp add: demo_env_def parseAction_def validActions_def cmp_Or_def
      scanDir_def parseInterval_def defaultInterval_def)

theorem config_exact_witness:
  "snd (loadConfig demo_env) = Inr \<lparr>ScanPath = ''/scandir'', cfgArgs = ''--rf-over 1'',
     Action = actionGroup, ActionArgs = [], Interval = 3 * hour, PhaseTimeout = 12 * hour, Mode = modeBuiltin\<rparr>"
  using demo_accepted
  by (simp add: config_exact) (simp add: demo_env_def parseAction_def validActions_def cmp_Or_def
      scanDir_def parseInterval_def defaultInterval_def)

end
