(* ===== verification/Capbuf.thy ===== *)
theory Capbuf
  imports Prelude
begin

text \<open>
  \<open>internal/capbuf\<close>: the capped accumulation buffer that captures a subprocess stream. The lemmas
  give its content and counters after any sequence of writes.
\<close>

record Buffer =
  b_buf :: bytes
  b_Max :: int
  b_totalIn :: int

definition new_buffer :: "int \<Rightarrow> Buffer" where
  "new_buffer m = \<lparr>b_buf = [], b_Max = m, b_totalIn = 0\<rparr>"

text \<open>\<open>Write\<close> returns the count it reports, its error (never one) and the buffer.\<close>

definition buf_Write :: "Buffer \<Rightarrow> bytes \<Rightarrow> nat \<times> syserr option \<times> Buffer" where
  "buf_Write b p =
     (let b1 = b\<lparr>b_totalIn := b_totalIn b + int (length p)\<rparr>;
          room = max 0 (b_Max b1 - int (length (b_buf b1)));
          b2 = b1\<lparr>b_buf := b_buf b1 @ take (nat (min (int (length p)) room)) p\<rparr>
      in (length p, None, b2))"

definition buf_String :: "Buffer \<Rightarrow> bytes" where
  "buf_String b = b_buf b"

definition buf_Total :: "Buffer \<Rightarrow> int" where
  "buf_Total b = b_totalIn b"

definition buf_Truncated :: "Buffer \<Rightarrow> bool" where
  "buf_Truncated b \<longleftrightarrow> b_Max b < b_totalIn b"

definition buf_put :: "Buffer \<Rightarrow> bytes \<Rightarrow> Buffer" where
  "buf_put b p = snd (snd (buf_Write b p))"

text \<open>The abstract view: everything written so far, cut at the cap.\<close>

definition captures :: "int \<Rightarrow> bytes \<Rightarrow> Buffer \<Rightarrow> bool" where
  "captures m all b \<longleftrightarrow>
     b_Max b = m \<and> b_totalIn b = int (length all) \<and> b_buf b = take (nat m) all"

lemma captures_new: "captures m [] (new_buffer m)"
  by (simp add: captures_def new_buffer_def)

lemma take_room:
  "take (nat m) all @ take (nat (min (int (length p)) (max 0 (m - int (length (take (nat m) all)))))) p
     = take (nat m) (all @ p)"
proof (cases "length all \<le> nat m")
  case True
  then have "nat (min (int (length p)) (max 0 (m - int (length (take (nat m) all)))))
               = min (length p) (nat m - length all)"
    by (cases "0 \<le> m") (auto simp: min_def max_def)
  then show ?thesis by (simp add: min_def)
next
  case False
  then have "max 0 (m - int (length (take (nat m) all))) = 0" by simp
  then show ?thesis using False by simp
qed

lemma captures_put: "captures m all b \<Longrightarrow> captures m (all @ p) (buf_put b p)"
  using take_room [of m all p]
  by (simp add: captures_def buf_put_def buf_Write_def Let_def)

lemma captures_run: "captures m all b \<Longrightarrow> captures m (all @ concat ps) (foldl buf_put b ps)"
proof (induction ps arbitrary: all b)
  case (Cons p ps)
  from Cons.IH [OF captures_put [OF Cons.prems], of p] show ?case by simp
qed simp

definition within_max :: "Buffer \<Rightarrow> bool" where
  "within_max b \<longleftrightarrow> int (length (b_buf b)) \<le> max 0 (b_Max b) \<and> int (length (b_buf b)) \<le> b_totalIn b"

interpretation buffer: stepper buf_put within_max
  by unfold_locales (auto simp: within_max_def buf_put_def buf_Write_def Let_def min_def)

interpretation capture: io_writer buf_Write
  by unfold_locales (auto simp: buf_Write_def Let_def)

text \<open>
  C40. After any sequence of writes the buffer holds the first \<open>Max\<close> bytes of all that was written,
  \<open>Total\<close> is the full count, no write reports an error or a short count, and \<open>Truncated\<close> says
  exactly whether a byte was discarded (for a cap that is not negative).
\<close>

theorem capbuf_content:
  fixes m :: int
  assumes "0 \<le> m"
  shows "buf_String (foldl buf_put (new_buffer m) ps) = take (nat m) (concat ps) \<and>
         buf_Total (foldl buf_put (new_buffer m) ps) = int (length (concat ps)) \<and>
         buf_Truncated (foldl buf_put (new_buffer m) ps)
           = (buf_String (foldl buf_put (new_buffer m) ps) \<noteq> concat ps) \<and>
         (\<forall>b p. fst (buf_Write b p) = length p \<and> fst (snd (buf_Write b p)) = None)"
proof -
  have "captures m (concat ps) (foldl buf_put (new_buffer m) ps)"
    using captures_run [OF captures_new, of m ps] by simp
  moreover have "take (nat m) xs \<noteq> xs \<longleftrightarrow> m < int (length xs)" for xs :: bytes
    using assms by (metis nat_less_iff not_le take_all_iff)
  ultimately show ?thesis
    by (simp add: captures_def buf_String_def buf_Total_def buf_Truncated_def buf_Write_def Let_def)
qed

theorem capbuf_content_witness:
  "buf_String (foldl buf_put (new_buffer 4) [''abc'', ''def'']) = ''abcd'' \<and>
   buf_Truncated (foldl buf_put (new_buffer 4) [''abc'', ''def''])"
  using capbuf_content [of 4 "[''abc'', ''def'']"] by simp

end
