(* ===== verification/Linefilter.thy ===== *)
theory Linefilter
  imports GoStrings
begin

text \<open>
  \<open>internal/linefilter\<close>: the line-oriented filter on the stderr of fclones. Per line it drops known
  noise (\<open>shouldFilterLine\<close>) and rewrites control bytes, invalid UTF-8 and refused runes to visible
  escapes (\<open>sanitizeControlBytes\<close>); a bounded buffer holds the last partial line.

  \<open>textsafe.IsUnsafeNonASCII\<close> is a third-party predicate: the parameter \<open>unsafe\<close>. The sink the
  filter writes to is the parameter \<open>wr\<close>, which returns an error or none and the next sink state.
\<close>

definition MaxLineBytes :: nat where "MaxLineBytes = 1048576"

record 'w Writer =
  lw_w :: 'w
  lw_buf :: bytes
  lw_floods :: nat

definition New :: "'w \<Rightarrow> 'w Writer" where
  "New w = \<lparr>lw_w = w, lw_buf = [], lw_floods = 0\<rparr>"

subsection \<open>Noise\<close>

record noiseMarker =
  nm_substr :: bytes
  nm_prefix :: bytes

definition infoProgressPatterns :: "noiseMarker list" where
  "infoProgressPatterns =
     [\<lparr>nm_substr = ''Started grouping'', nm_prefix = []\<rparr>,
      \<lparr>nm_substr = ''Started deduplicating'', nm_prefix = []\<rparr>,
      \<lparr>nm_substr = ''Scanned '', nm_prefix = []\<rparr>,
      \<lparr>nm_substr = ''Found '', nm_prefix = []\<rparr>]"

definition warnNoisePatterns :: "noiseMarker list" where
  "warnNoisePatterns =
     [\<lparr>nm_substr = ''doesn't support FIEMAP ioctl API'', nm_prefix = ''File system ''\<rparr>]"

definition noisePatternsByLevel :: "bytes \<Rightarrow> noiseMarker list option" where
  "noisePatternsByLevel level =
     (if level = ''info'' then Some infoProgressPatterns
      else if level = ''warn'' then Some warnNoisePatterns
      else None)"

definition marker_matches :: "bytes \<Rightarrow> noiseMarker \<Rightarrow> bool" where
  "marker_matches body m \<longleftrightarrow>
     \<not> (nm_prefix m \<noteq> [] \<and> \<not> has_prefix body (nm_prefix m)) \<and> contains body (nm_substr m)"

definition shouldFilterLine :: "bytes \<Rightarrow> bool" where
  "shouldFilterLine line =
     (case cut line ''fclones:'' of
        (_, after, ok) \<Rightarrow>
          if \<not> ok then False
          else (case cut (trim_left_blanks after) '':'' of
                  (level, msg, ok2) \<Rightarrow>
                    if \<not> ok2 then False
                    else (case noisePatternsByLevel (trim_space level) of
                            None \<Rightarrow> False
                          | Some patterns \<Rightarrow>
                              list_ex (marker_matches (trim_left_blanks msg)) patterns)))"

subsection \<open>Escaping\<close>

definition hexDigits :: bytes where "hexDigits = ''0123456789abcdef''"

definition isC0OrDEL :: "char \<Rightarrow> bool" where
  "isC0OrDEL b \<longleftrightarrow> (byte_val b < 0x20 \<and> b \<noteq> nl \<and> b \<noteq> CHR 0x09) \<or> byte_val b = 0x7F"

function containsUnsafeRune :: "(rune \<Rightarrow> bool) \<Rightarrow> bytes \<Rightarrow> bool" where
  "containsUnsafeRune unsafe p =
     (if p = [] then False
      else if unsafe (fst (decode_rune p)) then True
      else containsUnsafeRune unsafe (drop (snd (decode_rune p)) p))"
  by pat_completeness auto
termination
  by (relation "measure (\<lambda>(unsafe, p). length p)") auto

declare containsUnsafeRune.simps [simp del]

definition escHexByte :: "char \<Rightarrow> bytes" where
  "escHexByte b = [backslash, CHR ''x'', hexDigits ! (byte_val b div 16), hexDigits ! (byte_val b mod 16)]"

text \<open>One turn of the loop in \<open>escapeControlBytes\<close>: the bytes it appends and how far it moves.\<close>

definition escape_chunk :: "(rune \<Rightarrow> bool) \<Rightarrow> bytes \<Rightarrow> bytes \<times> nat" where
  "escape_chunk unsafe line =
     (let b = hd line in
      if isC0OrDEL b then (escHexByte b, 1)
      else if byte_val b < RuneSelf then ([b], 1)
      else let r = fst (decode_rune line); size = snd (decode_rune line) in
        if (r = RuneError \<and> size = 1) \<or> unsafe r
        then (concat (map escHexByte (take size line)), size)
        else (take size line, size))"

lemma escape_chunk_pos: "p \<noteq> [] \<Longrightarrow> 0 < snd (escape_chunk unsafe p)"
  using decode_size_pos by (auto simp: escape_chunk_def Let_def)

lemma escape_chunk_less [simp]:
  "p \<noteq> [] \<Longrightarrow> length p - snd (escape_chunk unsafe p) < length p"
  using escape_chunk_pos [of p unsafe] by (cases p) auto

function escapeControlBytes :: "(rune \<Rightarrow> bool) \<Rightarrow> bytes \<Rightarrow> bytes" where
  "escapeControlBytes unsafe line =
     (if line = [] then []
      else fst (escape_chunk unsafe line) @
           escapeControlBytes unsafe (drop (snd (escape_chunk unsafe line)) line))"
  by pat_completeness auto
termination
  by (relation "measure (\<lambda>(unsafe, line). length line)") auto

declare escapeControlBytes.simps [simp del]

definition sanitizeControlBytes :: "(rune \<Rightarrow> bool) \<Rightarrow> bytes \<Rightarrow> bytes" where
  "sanitizeControlBytes unsafe line =
     (if utf8_valid line \<and> \<not> list_ex isC0OrDEL line \<and> \<not> containsUnsafeRune unsafe line then line
      else escapeControlBytes unsafe line)"

definition EscapeUnsafe :: "(rune \<Rightarrow> bool) \<Rightarrow> bytes \<Rightarrow> bytes" where
  "EscapeUnsafe unsafe s = sanitizeControlBytes unsafe s"

subsection \<open>The writer\<close>

definition emit ::
  "(rune \<Rightarrow> bool) \<Rightarrow> ('w \<Rightarrow> bytes \<Rightarrow> syserr option \<times> 'w) \<Rightarrow> 'w Writer \<Rightarrow> bytes
     \<Rightarrow> syserr option \<times> 'w Writer" where
  "emit unsafe wr fw line =
     (if shouldFilterLine line then (None, fw)
      else (case wr (lw_w fw) (sanitizeControlBytes unsafe line) of
              (err, w') \<Rightarrow> (err, fw\<lparr>lw_w := w'\<rparr>)))"

lemma index_nl_less: "str_index buf [nl] = Some idx \<Longrightarrow> idx < length buf"
  by (auto dest!: str_index_Some)

text \<open>The loop of \<open>Write\<close> over the joined buffer \<open>buf\<close>; the field \<open>lw_buf\<close> is empty meanwhile.\<close>

function write_loop ::
  "(rune \<Rightarrow> bool) \<Rightarrow> ('w \<Rightarrow> bytes \<Rightarrow> syserr option \<times> 'w) \<Rightarrow> 'w Writer \<Rightarrow> bytes
     \<Rightarrow> syserr option \<times> 'w Writer" where
  "write_loop unsafe wr fw buf =
     (case str_index buf [nl] of
        None \<Rightarrow>
          let fw1 = fw\<lparr>lw_buf := lw_buf fw @ buf\<rparr> in
          if MaxLineBytes < length (lw_buf fw1)
          then let fw2 = fw1\<lparr>lw_floods := lw_floods fw1 + 1\<rparr> in
               (case emit unsafe wr fw2 (lw_buf fw2) of
                  (err, fw3) \<Rightarrow> (err, fw3\<lparr>lw_buf := []\<rparr>))
          else (None, fw1)
      | Some idx \<Rightarrow>
          (case emit unsafe wr fw (take (idx + 1) buf) of
             (Some e, fw1) \<Rightarrow> (Some e, fw1)
           | (None, fw1) \<Rightarrow> write_loop unsafe wr fw1 (drop (idx + 1) buf)))"
  by pat_completeness auto
termination
  by (relation "measure (\<lambda>(unsafe, wr, fw, buf). length buf)") (auto dest!: index_nl_less)

declare write_loop.simps [simp del]

definition lf_Write ::
  "(rune \<Rightarrow> bool) \<Rightarrow> ('w \<Rightarrow> bytes \<Rightarrow> syserr option \<times> 'w) \<Rightarrow> 'w Writer \<Rightarrow> bytes
     \<Rightarrow> nat \<times> syserr option \<times> 'w Writer" where
  "lf_Write unsafe wr fw p =
     (let buf = lw_buf fw @ p in
      case write_loop unsafe wr (fw\<lparr>lw_buf := []\<rparr>) buf of (err, fw') \<Rightarrow> (length p, err, fw'))"

definition lf_Flush ::
  "(rune \<Rightarrow> bool) \<Rightarrow> ('w \<Rightarrow> bytes \<Rightarrow> syserr option \<times> 'w) \<Rightarrow> 'w Writer
     \<Rightarrow> syserr option \<times> 'w Writer" where
  "lf_Flush unsafe wr fw =
     (if length (lw_buf fw) = 0 then (None, fw)
      else let line = lw_buf fw in emit unsafe wr (fw\<lparr>lw_buf := []\<rparr>) line)"

definition lf_Floods :: "'w Writer \<Rightarrow> nat" where
  "lf_Floods fw = lw_floods fw"

subsection \<open>The escape: what passes, what it produces\<close>

text \<open>Text the escape leaves alone.\<close>

definition passes :: "(rune \<Rightarrow> bool) \<Rightarrow> bytes \<Rightarrow> bool" where
  "passes unsafe p \<longleftrightarrow>
     utf8_valid p \<and> (\<forall>c \<in> set p. \<not> isC0OrDEL c) \<and>
     (\<forall>r \<in> set (runes p). RuneSelf \<le> r \<longrightarrow> \<not> unsafe r)"

lemma passes_Nil [simp]: "passes unsafe []"
  by (simp add: passes_def)

lemma passes_append: "passes unsafe a \<Longrightarrow> passes unsafe b \<Longrightarrow> passes unsafe (a @ b)"
  by (auto simp: passes_def utf8_valid_append runes_append)

lemma passes_concat: "\<forall>a \<in> set as. passes unsafe a \<Longrightarrow> passes unsafe (concat as)"
  by (induction as) (simp_all add: passes_append)

lemma passes_ascii:
  "is_ascii s \<Longrightarrow> \<forall>c \<in> set s. \<not> isC0OrDEL c \<Longrightarrow> passes unsafe s"
  by (auto simp: passes_def utf8_valid_ascii runes_ascii) (auto simp: is_ascii_def)

lemma containsUnsafeRune_runes: "containsUnsafeRune unsafe p \<longleftrightarrow> (\<exists>r \<in> set (runes p). unsafe r)"
proof (induction unsafe p rule: containsUnsafeRune.induct)
  case (1 unsafe p)
  show ?case
  proof (cases "p = []")
    case True
    then show ?thesis by (simp add: containsUnsafeRune.simps)
  next
    case False
    then have "containsUnsafeRune unsafe p \<longleftrightarrow> unsafe (fst (decode_rune p)) \<or>
        containsUnsafeRune unsafe (drop (snd (decode_rune p)) p)"
      by (subst containsUnsafeRune.simps) simp
    with "1.IH" False show ?thesis by (auto simp: runes_nonempty)
  qed
qed

lemma fast_path_passes:
  "utf8_valid p \<Longrightarrow> \<not> list_ex isC0OrDEL p \<Longrightarrow> \<not> containsUnsafeRune unsafe p \<Longrightarrow> passes unsafe p"
  by (auto simp: passes_def containsUnsafeRune_runes list_ex_iff)

lemma decode_multi_ge:
  assumes "\<not> decode_fails (c # t)" and "\<not> byte_val c < RuneSelf"
  shows "RuneSelf \<le> fst (decode_rune (c # t))"
proof (rule ccontr)
  let ?r = "fst (decode_rune (c # t))"
  assume "\<not> RuneSelf \<le> ?r"
  then have "encode_rune ?r = [byte_of ?r]" "?r < RuneSelf" "?r < 256"
    by (auto simp: encode_rune_def valid_rune_def MaxRune_def RuneSelf_def)
  moreover have "hd (encode_rune ?r) = c"
    using encode_decode(1) [OF _ assms(1)] decode_size_pos [of "c # t"]
    by (cases "snd (decode_rune (c # t))") auto
  ultimately show False using assms(2) by (metis byte_val_of list.sel(1))
qed

text \<open>Escaping is the identity on text that passes: the fast path and the slow path agree.\<close>

lemma escape_passes: "passes unsafe p \<Longrightarrow> escapeControlBytes unsafe p = p"
proof (induction unsafe p rule: escapeControlBytes.induct)
  case (1 unsafe p)
  show ?case
  proof (cases p)
    case Nil
    then show ?thesis by (simp add: escapeControlBytes.simps)
  next
    case (Cons c t)
    from "1.prems" have v: "\<not> decode_fails p" "utf8_valid (drop (snd (decode_rune p)) p)"
      "\<not> isC0OrDEL c" "\<not> (RuneSelf \<le> fst (decode_rune p) \<and> unsafe (fst (decode_rune p)))"
      "\<forall>r \<in> set (runes (drop (snd (decode_rune p)) p)). RuneSelf \<le> r \<longrightarrow> \<not> unsafe r"
      by (auto simp: passes_def utf8_valid_nonempty runes_nonempty Cons)
    have chunk: "escape_chunk unsafe p = (take (snd (decode_rune p)) p, snd (decode_rune p))"
      using v(1,3,4) decode_multi_ge [of c t]
      by (auto simp: escape_chunk_def Let_def Cons decode_fails_def decode_rune_ascii prod_eq_iff)
    have "passes unsafe (drop (snd (decode_rune p)) p)"
      using "1.prems" v by (auto simp: passes_def dest: in_set_dropD)
    with "1.IH" chunk Cons have "escapeControlBytes unsafe (drop (snd (decode_rune p)) p)
        = drop (snd (decode_rune p)) p" by simp
    then show ?thesis using chunk Cons by (subst escapeControlBytes.simps) simp
  qed
qed

lemma hexDigits_ascii: "i < 16 \<Longrightarrow> byte_val (hexDigits ! i) < RuneSelf \<and> \<not> isC0OrDEL (hexDigits ! i)"
proof -
  assume "i < 16"
  then have "hexDigits ! i \<in> set hexDigits" by (intro nth_mem) (simp add: hexDigits_def)
  then show ?thesis
    by (auto simp: hexDigits_def ascii_simps isC0OrDEL_def)
qed

lemma passes_escHexByte: "passes unsafe (escHexByte b)"
proof -
  have "byte_val b div 16 < 16" "byte_val b mod 16 < 16"
    using byte_val_less [of b] by (simp_all add: less_mult_imp_div_less)
  from this [THEN hexDigits_ascii] show ?thesis
    by (intro passes_ascii) (auto simp: escHexByte_def ascii_simps isC0OrDEL_def)
qed

lemma cont_not_C0: "RuneSelf \<le> byte_val c \<Longrightarrow> \<not> isC0OrDEL c"
  by (auto simp: isC0OrDEL_def RuneSelf_def)

lemma passes_chunk:
  assumes "p \<noteq> []"
  shows "passes unsafe (fst (escape_chunk unsafe p))"
proof -
  obtain c t where p: "p = c # t" using assms by (cases p) auto
  let ?r = "fst (decode_rune p)" and ?n = "snd (decode_rune p)"
  consider "isC0OrDEL c" | "\<not> isC0OrDEL c" "byte_val c < RuneSelf"
    | "\<not> isC0OrDEL c" "\<not> byte_val c < RuneSelf" "decode_fails p \<or> unsafe ?r"
    | "\<not> isC0OrDEL c" "\<not> byte_val c < RuneSelf" "\<not> decode_fails p" "\<not> unsafe ?r" by blast
  then show ?thesis
  proof cases
    case 1
    then show ?thesis by (simp add: escape_chunk_def p passes_escHexByte)
  next
    case 2
    then show ?thesis by (simp add: escape_chunk_def p passes_ascii)
  next
    case 3
    then have "fst (escape_chunk unsafe p) = concat (map escHexByte (take ?n p))"
      by (auto simp: escape_chunk_def Let_def p decode_fails_def prod_eq_iff)
    then show ?thesis by (auto simp: passes_escHexByte intro!: passes_concat)
  next
    case 4
    have enc: "take ?n p = encode_rune ?r" "valid_rune ?r"
      using encode_decode [OF assms 4(3)] by simp_all
    have "RuneSelf \<le> ?r" using decode_multi_ge 4 p by blast
    then have "passes unsafe (encode_rune ?r)"
      using enc(2) 4(4) utf8_valid_encode [OF enc(2), of "[]"] runes_encode [OF enc(2), of "[]"]
      using cont_not_C0 encode_high_bytes [OF _ enc(2)] by (auto simp: passes_def)
    with 4 p enc(1) show ?thesis
      by (auto simp: escape_chunk_def Let_def decode_fails_def prod_eq_iff)
  qed
qed

lemma passes_escape: "passes unsafe (escapeControlBytes unsafe p)"
proof (induction unsafe p rule: escapeControlBytes.induct)
  case (1 unsafe p)
  then show ?case
    by (subst escapeControlBytes.simps) (auto intro: passes_append passes_chunk)
qed

lemma sanitize_is_escape: "sanitizeControlBytes unsafe p = escapeControlBytes unsafe p"
  using escape_passes [OF fast_path_passes, of p unsafe] by (auto simp: sanitizeControlBytes_def)

text \<open>
  The fast path of \<open>sanitizeControlBytes\<close> never changes the result: for every input it equals
  the byte-by-byte escape, whatever runes \<open>textsafe\<close> refuses.
\<close>

theorem sanitize_eq_escape: "sanitizeControlBytes unsafe p = escapeControlBytes unsafe p"
  by (rule sanitize_is_escape)

text \<open>
  C7. What leaves the filter is safe to print: valid UTF-8, no C0 control byte except newline and
  tab, no DEL, and no non-ASCII rune that \<open>textsafe\<close> refuses; and escaping it again changes nothing.
\<close>

theorem sanitize_output_safe:
  "let q = sanitizeControlBytes unsafe p in
     utf8_valid q \<and> \<not> list_ex isC0OrDEL q \<and>
     \<not> list_ex (\<lambda>r. RuneSelf \<le> r \<and> unsafe r) (runes q) \<and>
     sanitizeControlBytes unsafe q = q \<and> EscapeUnsafe unsafe q = q"
  using passes_escape [of unsafe p] escape_passes [OF passes_escape, of unsafe p]
  by (auto simp: Let_def sanitize_is_escape EscapeUnsafe_def passes_def list_ex_iff)

text \<open>
  Line framing: the escape keeps every newline and tab and makes no new one, so one input line stays
  one output line.
\<close>

lemma count_chunk:
  assumes "p \<noteq> []" and "k = nl \<or> k = CHR 0x09"
  shows "count_list (fst (escape_chunk unsafe p)) k
           = count_list (take (snd (escape_chunk unsafe p)) p) k"
proof -
  obtain c t where p: "p = c # t" using assms by (cases p) auto
  have esc: "count_list (escHexByte b) k = 0" for b
  proof -
    have h: "hexDigits ! i \<noteq> k" if "i < 16" for i
    proof -
      have "hexDigits ! i \<in> set hexDigits" using that by (intro nth_mem) (simp add: hexDigits_def)
      then show ?thesis using assms(2) by (auto simp: hexDigits_def)
    qed
    have "byte_val b div 16 < 16" "byte_val b mod 16 < 16"
      using byte_val_less [of b] by (simp_all add: less_mult_imp_div_less)
    then show ?thesis using assms(2) h by (auto simp: escHexByte_def)
  qed
  have escs: "count_list (concat (map escHexByte xs)) k = 0" for xs
    by (induction xs) (simp_all add: esc)
  have none: "count_list xs k = 0" if "\<forall>b \<in> set xs. RuneSelf \<le> byte_val b" for xs
    using that assms(2) by (induction xs) (auto simp: RuneSelf_def byte_val_def)
  have high: "\<forall>b \<in> set (take (snd (decode_rune p)) p). RuneSelf \<le> byte_val b"
    if "\<not> byte_val c < RuneSelf"
  proof (cases "decode_fails p")
    case True
    with that p show ?thesis by (simp add: decode_fails_def)
  next
    case False
    with encode_decode [OF assms(1) False] that p decode_multi_ge [of c t] show ?thesis
      by (metis encode_high_bytes)
  qed
  have not_k: "c \<noteq> k" if "isC0OrDEL c"
    using that assms(2) by (auto simp: isC0OrDEL_def byte_val_def)
  consider "isC0OrDEL c" | "\<not> isC0OrDEL c" "byte_val c < RuneSelf"
    | "\<not> isC0OrDEL c" "\<not> byte_val c < RuneSelf" by blast
  then show ?thesis
  proof cases
    case 1
    then show ?thesis using esc not_k by (simp add: escape_chunk_def p)
  next
    case 2
    then show ?thesis by (simp add: escape_chunk_def p)
  next
    case 3
    then have "count_list (take (snd (decode_rune p)) p) k = 0" using high none by blast
    with 3 escs show ?thesis by (simp add: escape_chunk_def Let_def p del: take_Cons')
  qed
qed

lemma count_escape:
  "k = nl \<or> k = CHR 0x09 \<Longrightarrow> count_list (escapeControlBytes unsafe p) k = count_list p k"
proof (induction unsafe p rule: escapeControlBytes.induct)
  case (1 unsafe p)
  show ?case
  proof (cases "p = []")
    case False
    let ?n = "snd (escape_chunk unsafe p)"
    have "count_list (escapeControlBytes unsafe p) k
        = count_list (fst (escape_chunk unsafe p)) k + count_list (drop ?n p) k"
      using False "1.IH" [OF False "1.prems"]
      by (subst escapeControlBytes.simps) (simp add: count_list_append)
    also have "\<dots> = count_list (take ?n p @ drop ?n p) k"
      using count_chunk [OF False "1.prems"] by (simp only: count_list_append)
    finally show ?thesis by simp
  qed (simp add: escapeControlBytes.simps)
qed

text \<open>
  No log forging: the escaped text has exactly as many newline bytes (and tab bytes) as the
  input, so a scanned file name cannot start a log line of its own.
\<close>

theorem sanitize_keeps_framing:
  "count_list (sanitizeControlBytes unsafe p) nl = count_list p nl \<and>
   count_list (sanitizeControlBytes unsafe p) (CHR 0x09) = count_list p (CHR 0x09)"
  by (simp add: sanitize_is_escape count_escape)

subsection \<open>Which lines are dropped\<close>

abbreviation fclones_tag :: bytes where "fclones_tag \<equiv> ''fclones:''"

text \<open>The tag is found where fclones put it: nothing inside or across the text before it matches.\<close>

lemma prefix_inside:
  assumes "drop j pre @ r = f @ t" and "length f \<le> length (drop j pre)"
  shows "contains pre f"
proof -
  have "take (length f) (drop j pre) = f"
    using arg_cong [OF assms(1), of "take (length f)"] assms(2) by simp
  then have "pre = take j pre @ f @ drop (length f) (drop j pre)"
    by (metis append_take_drop_id)
  then show ?thesis by (metis contains_append_right)
qed

lemma cut_tag:
  assumes "\<not> contains pre fclones_tag"
  shows "cut (pre @ fclones_tag @ rest) fclones_tag = (pre, rest, True)"
proof -
  have "str_index (pre @ fclones_tag @ rest) fclones_tag = Some (length pre)"
  proof (rule str_index_eqI)
    fix j assume j: "j < length pre"
    show "\<not> has_prefix (drop j (pre @ fclones_tag @ rest)) fclones_tag"
    proof
      assume "has_prefix (drop j (pre @ fclones_tag @ rest)) fclones_tag"
      then obtain t where t: "drop j (pre @ fclones_tag @ rest) = fclones_tag @ t"
        by (auto simp: has_prefix_iff)
      have at: "(pre @ fclones_tag @ rest) ! (j + 7) = CHR '':''"
        using arg_cong [OF t, of "\<lambda>xs. xs ! 7"] j by (subst (asm) nth_drop) simp_all
      show False
      proof (cases "j + 7 < length pre")
        case True
        have "drop j pre @ fclones_tag @ rest = fclones_tag @ t" using t j by simp
        moreover have "length fclones_tag \<le> length (drop j pre)" using True by simp
        ultimately have "contains pre fclones_tag" by (rule prefix_inside)
        with assms show False by contradiction
      next
        case False
        then have k: "j + 7 - length pre < 7" using j by simp
        have "(pre @ fclones_tag @ rest) ! (j + 7) = (fclones_tag @ rest) ! (j + 7 - length pre)"
          using False by (simp only: nth_append if_False)
        also have "\<dots> = fclones_tag ! (j + 7 - length pre)"
          by (rule nth_append_left) (use k in simp)
        finally have "(pre @ fclones_tag @ rest) ! (j + 7) = fclones_tag ! (j + 7 - length pre)" .
        moreover have "fclones_tag ! (j + 7 - length pre) = ''fclones'' ! (j + 7 - length pre)"
          using k nth_append [of "''fclones''" "'':''" "j + 7 - length pre"] by simp
        moreover have "''fclones'' ! (j + 7 - length pre) \<in> set ''fclones''"
          using k by (intro nth_mem) simp
        ultimately show False using at by auto
      qed
    qed
  qed simp_all
  then show ?thesis by (simp add: cut_def)
qed

text \<open>
  C37. Which lines are dropped, exactly. Whatever the message is (it may echo any file name), a line
  tagged by fclones is suppressed only for what its level field says: an info line that holds one of
  the four progress phrases, or a warning whose body starts with \<open>File system \<close> and holds the FIEMAP
  notice. A line of any other level is never dropped.
\<close>

theorem noise_exact:
  assumes "\<not> contains pre fclones_tag" and "CHR '':'' \<notin> set lvl"
  shows "shouldFilterLine (pre @ fclones_tag @ lvl @ '':'' @ msg) \<longleftrightarrow>
    (let level = trim_space (trim_left_blanks lvl); body = trim_left_blanks msg in
     level = ''info'' \<and> (contains body ''Started grouping'' \<or> contains body ''Started deduplicating''
         \<or> contains body ''Scanned '' \<or> contains body ''Found '') \<or>
     level = ''warn'' \<and> has_prefix body ''File system '' \<and>
       contains body ''doesn't support FIEMAP ioctl API'')"
proof -
  have tl: "trim_left_blanks (lvl @ CHR '':'' # msg) = trim_left_blanks lvl @ CHR '':'' # msg"
    by (induction lvl) (simp_all add: trim_left_blanks_def)
  have "CHR '':'' \<notin> set (trim_left_blanks lvl)"
    using assms(2) by (auto simp: trim_left_blanks_def dest: set_dropWhileD)
  then have "cut (trim_left_blanks (lvl @ CHR '':'' # msg)) '':'' = (trim_left_blanks lvl, msg, True)"
    by (simp add: tl cut_byte)
  then show ?thesis
    using cut_tag [OF assms(1), of "lvl @ '':'' @ msg"]
    by (auto simp: shouldFilterLine_def noisePatternsByLevel_def infoProgressPatterns_def
        warnNoisePatterns_def marker_matches_def Let_def)
qed

theorem noise_exact_witness:
  "shouldFilterLine (''['' @ fclones_tag @ ''  info'' @ '':'' @ '' Scanned 7 files'') \<and>
   \<not> shouldFilterLine (''['' @ fclones_tag @ '' error'' @ '':'' @ '' Scanned 7 files'')"
proof -
  have pre: "\<not> contains ''['' fclones_tag" by (simp add: contains_def)
  have lv: "trim_space ''info'' = ''info''" "trim_space ''error'' = ''error''"
    by (simp_all add: trim_space_def trim_left_space.simps trim_right_space.simps
        decode_rune_def decode_last_rune_def ascii_simps)
  show ?thesis
    using noise_exact [OF pre, of "''  info''" "'' Scanned 7 files''"]
      noise_exact [OF pre, of "'' error''" "'' Scanned 7 files''"]
    by (simp add: lv Let_def trim_left_blanks_def contains_def)
qed

subsection \<open>The writer, line by line\<close>

text \<open>
  The specification of the buffering: the complete lines of a stream, each with its newline, and the
  partial line left over.
\<close>

fun cut_lines :: "bytes \<Rightarrow> bytes \<Rightarrow> bytes list \<times> bytes" where
  "cut_lines cur [] = ([], cur)"
| "cut_lines cur (c # s) =
     (if c = nl then (case cut_lines [] s of (ls, t) \<Rightarrow> ((cur @ [nl]) # ls, t))
      else cut_lines (cur @ [c]) s)"

lemma cut_lines_append:
  "cut_lines cur (p @ q) =
     (case cut_lines cur p of (ls, t) \<Rightarrow> (case cut_lines t q of (ls', t') \<Rightarrow> (ls @ ls', t')))"
  by (induction cur p rule: cut_lines.induct) (auto split: prod.splits)

lemma cut_lines_no_nl: "nl \<notin> set p \<Longrightarrow> cut_lines cur (p @ s) = cut_lines (cur @ p) s"
  by (induction p arbitrary: cur) auto

lemma cut_lines_tail: "nl \<notin> set cur \<Longrightarrow> nl \<notin> set (snd (cut_lines cur s))"
  by (induction cur s rule: cut_lines.induct) (auto split: prod.splits)

text \<open>Emitting lines in order, up to the first error of the sink.\<close>

fun emit_all ::
  "(rune \<Rightarrow> bool) \<Rightarrow> ('w \<Rightarrow> bytes \<Rightarrow> syserr option \<times> 'w) \<Rightarrow> 'w Writer \<Rightarrow> bytes list
     \<Rightarrow> syserr option \<times> 'w Writer" where
  "emit_all unsafe wr fw [] = (None, fw)"
| "emit_all unsafe wr fw (l # ls) =
     (case emit unsafe wr fw l of
        (Some e, fw1) \<Rightarrow> (Some e, fw1)
      | (None, fw1) \<Rightarrow> emit_all unsafe wr fw1 ls)"

definition park_tail ::
  "(rune \<Rightarrow> bool) \<Rightarrow> ('w \<Rightarrow> bytes \<Rightarrow> syserr option \<times> 'w) \<Rightarrow> 'w Writer \<Rightarrow> bytes
     \<Rightarrow> syserr option \<times> 'w Writer" where
  "park_tail unsafe wr fw t =
     (if MaxLineBytes < length t
      then (case emit unsafe wr (fw\<lparr>lw_buf := t, lw_floods := lw_floods fw + 1\<rparr>) t of
              (err, fw1) \<Rightarrow> (err, fw1\<lparr>lw_buf := []\<rparr>))
      else (None, fw\<lparr>lw_buf := t\<rparr>))"

lemma emit_keeps [simp]:
  "lw_buf (snd (emit unsafe wr fw l)) = lw_buf fw"
  "lw_floods (snd (emit unsafe wr fw l)) = lw_floods fw"
  by (simp_all add: emit_def split: prod.splits)

lemma write_loop_spec:
  "lw_buf fw = [] \<Longrightarrow>
     write_loop unsafe wr fw buf =
       (case emit_all unsafe wr fw (fst (cut_lines [] buf)) of
          (Some e, fw1) \<Rightarrow> (Some e, fw1)
        | (None, fw1) \<Rightarrow> park_tail unsafe wr fw1 (snd (cut_lines [] buf)))"
proof (induction buf arbitrary: fw rule: length_induct)
  case (1 buf)
  show ?case
  proof (cases "str_index buf [nl]")
    case None
    then have "nl \<notin> set buf" by (simp add: str_index_byte_None)
    then have "cut_lines [] buf = ([], buf)" using cut_lines_no_nl [of buf "[]" "[]"] by simp
    with None "1.prems" show ?thesis
      by (subst write_loop.simps) (simp add: park_tail_def Let_def)
  next
    case (Some idx)
    obtain l t where buf: "buf = l @ nl # t" and len: "length l = idx"
      using str_index_Some [OF Some] by auto
    have no: "nl \<notin> set l"
    proof
      assume "nl \<in> set l"
      then obtain a b where l: "l = a @ nl # b" by (metis split_list)
      then have "has_prefix (drop (length a) buf) [nl]" by (simp add: buf)
      with str_index_least [OF Some, of "length a"] len l show False by simp
    qed
    have cl: "cut_lines [] buf = ((l @ [nl]) # fst (cut_lines [] t), snd (cut_lines [] t))"
      using cut_lines_no_nl [OF no, of "[]" "nl # t"] by (simp add: buf split: prod.splits)
    have tk: "take (idx + 1) buf = l @ [nl]" "drop (idx + 1) buf = t" using len buf by auto
    show ?thesis
    proof (cases "emit unsafe wr fw (l @ [nl])")
      case (Pair e fw1)
      then have "lw_buf fw1 = []" using "1.prems" emit_keeps(1) [of unsafe wr fw "l @ [nl]"] by simp
      then have "write_loop unsafe wr fw1 t =
          (case emit_all unsafe wr fw1 (fst (cut_lines [] t)) of
             (Some e, fw2) \<Rightarrow> (Some e, fw2)
           | (None, fw2) \<Rightarrow> park_tail unsafe wr fw2 (snd (cut_lines [] t)))"
        using "1.IH" buf by simp
      then show ?thesis
        by (subst write_loop.simps)
           (cases e; simp only: Some option.case tk Pair prod.case cl fst_conv snd_conv emit_all.simps)
    qed
  qed
qed

lemma lf_Write_spec:
  assumes "nl \<notin> set (lw_buf fw)"
  shows "lf_Write unsafe wr fw p =
    (case cut_lines (lw_buf fw) p of (ls, t) \<Rightarrow>
       (case emit_all unsafe wr (fw\<lparr>lw_buf := []\<rparr>) ls of
          (Some e, fw1) \<Rightarrow> (length p, Some e, fw1)
        | (None, fw1) \<Rightarrow> (case park_tail unsafe wr fw1 t of (err, fw2) \<Rightarrow> (length p, err, fw2))))"
proof -
  have "cut_lines [] (lw_buf fw @ p) = cut_lines (lw_buf fw) p"
    using cut_lines_no_nl [OF assms, of "[]" p] by simp
  then show ?thesis
    by (auto simp: lf_Write_def write_loop_spec split: prod.splits option.splits)
qed

text \<open>The buffer holds one bounded partial line, whatever is written and however the sink fails.\<close>

definition buf_bounded :: "'w Writer \<Rightarrow> bool" where
  "buf_bounded fw \<longleftrightarrow> nl \<notin> set (lw_buf fw) \<and> length (lw_buf fw) \<le> MaxLineBytes"

definition lf_put ::
  "(rune \<Rightarrow> bool) \<Rightarrow> ('w \<Rightarrow> bytes \<Rightarrow> syserr option \<times> 'w) \<Rightarrow> 'w Writer \<Rightarrow> bytes \<Rightarrow> 'w Writer" where
  "lf_put unsafe wr fw p = snd (snd (lf_Write unsafe wr fw p))"

lemma emit_all_buf: "lw_buf (snd (emit_all unsafe wr fw ls)) = lw_buf fw"
proof (induction ls arbitrary: fw)
  case (Cons l ls)
  obtain e fw1 where e: "emit unsafe wr fw l = (e, fw1)" by fastforce
  then have "lw_buf fw1 = lw_buf fw" using emit_keeps(1) [of unsafe wr fw l] by simp
  with e Cons.IH [of fw1] show ?case by (simp split: option.splits)
qed simp

lemma park_tail_bounded:
  "nl \<notin> set t \<Longrightarrow> buf_bounded (snd (park_tail unsafe wr fw t))"
  by (auto simp: park_tail_def buf_bounded_def split: prod.splits)

lemma lf_put_bounded: "buf_bounded fw \<Longrightarrow> buf_bounded (lf_put unsafe wr fw p)"
proof -
  assume b: "buf_bounded fw"
  then have "nl \<notin> set (snd (cut_lines (lw_buf fw) p))"
    by (simp add: buf_bounded_def cut_lines_tail)
  moreover have "buf_bounded (snd (emit_all unsafe wr (fw\<lparr>lw_buf := []\<rparr>) ls))" for ls
    by (simp add: buf_bounded_def emit_all_buf)
  ultimately show ?thesis
    using b park_tail_bounded [of "snd (cut_lines (lw_buf fw) p)" unsafe wr]
    by (auto simp: lf_put_def lf_Write_spec buf_bounded_def split: prod.splits option.splits)
      (metis snd_conv)+
qed

interpretation filter_state: stepper "lf_put unsafe wr" buf_bounded for unsafe wr
  by unfold_locales (rule lf_put_bounded)

interpretation filter_writer: io_writer "lf_Write unsafe wr" for unsafe wr
  by unfold_locales (auto simp: lf_Write_def Let_def split: prod.splits)

text \<open>
  Bounded memory: after any sequence of writes to a fresh filter, even with a failing sink, the
  partial-line buffer holds at most \<open>MaxLineBytes\<close> bytes and no newline.
\<close>

theorem linefilter_bounded:
  "length (lw_buf (foldl (lf_put unsafe wr) (New w) ps)) \<le> MaxLineBytes \<and>
   nl \<notin> set (lw_buf (foldl (lf_put unsafe wr) (New w) ps))"
proof -
  have "buf_bounded (New w)" by (simp add: New_def buf_bounded_def)
  then have "buf_bounded (foldl (lf_put unsafe wr) (New w) ps)" by (rule filter_state.run_inv)
  then show ?thesis by (simp add: buf_bounded_def)
qed

subsection \<open>The stream as a whole\<close>

definition sink_lines ::
  "(rune \<Rightarrow> bool) \<Rightarrow> ('w \<Rightarrow> bytes \<Rightarrow> syserr option \<times> 'w) \<Rightarrow> 'w \<Rightarrow> bytes list \<Rightarrow> 'w" where
  "sink_lines unsafe wr w ls =
     foldl (\<lambda>w l. snd (wr w l)) w
       (map (sanitizeControlBytes unsafe) (filter (\<lambda>l. \<not> shouldFilterLine l) ls))"

lemma sink_lines_append:
  "sink_lines unsafe wr w (ls @ ls') = sink_lines unsafe wr (sink_lines unsafe wr w ls) ls'"
  by (simp add: sink_lines_def)

lemma emit_ok:
  "\<forall>w x. fst (wr w x) = None \<Longrightarrow>
     emit unsafe wr fw l = (None, fw\<lparr>lw_w := sink_lines unsafe wr (lw_w fw) [l]\<rparr>)"
  by (simp add: emit_def sink_lines_def split: prod.splits) (metis fst_conv)

lemma emit_all_ok:
  "\<forall>w x. fst (wr w x) = None \<Longrightarrow>
     emit_all unsafe wr fw ls = (None, fw\<lparr>lw_w := sink_lines unsafe wr (lw_w fw) ls\<rparr>)"
proof (induction ls arbitrary: fw)
  case Nil
  then show ?case by (simp add: sink_lines_def)
next
  case (Cons l ls)
  then show ?case
    using sink_lines_append [of unsafe wr "lw_w fw" "[l]" ls] by (simp add: emit_ok)
qed

lemma lf_put_ok:
  assumes "\<forall>w x. fst (wr w x) = None" and "nl \<notin> set (lw_buf fw)"
    and "cut_lines (lw_buf fw) p = (ls, t)"
  shows "lf_put unsafe wr fw p =
    (if length t \<le> MaxLineBytes
     then fw\<lparr>lw_w := sink_lines unsafe wr (lw_w fw) ls, lw_buf := t\<rparr>
     else fw\<lparr>lw_w := sink_lines unsafe wr (lw_w fw) (ls @ [t]), lw_buf := [],
            lw_floods := lw_floods fw + 1\<rparr>)"
  by (simp add: lf_put_def lf_Write_spec [OF assms(2)] assms(3) emit_all_ok [OF assms(1)]
      park_tail_def emit_ok [OF assms(1)] sink_lines_append)

lemma stream_state:
  assumes ok: "\<forall>w x. fst (wr w x) = None"
    and "lw_floods (foldl (lf_put unsafe wr) (New w) ps) = 0"
  shows "foldl (lf_put unsafe wr) (New w) ps =
    \<lparr>lw_w = sink_lines unsafe wr w (fst (cut_lines [] (concat ps))),
     lw_buf = snd (cut_lines [] (concat ps)), lw_floods = 0\<rparr>"
  using assms(2)
proof (induction ps rule: rev_induct)
  case Nil
  then show ?case by (simp add: New_def sink_lines_def)
next
  case (snoc p ps)
  let ?fw = "foldl (lf_put unsafe wr) (New w) ps"
  have nonl: "nl \<notin> set (lw_buf ?fw)"
    using filter_state.run_inv [of "New w" unsafe wr ps] by (simp add: buf_bounded_def New_def)
  obtain ls t where cl: "cut_lines (lw_buf ?fw) p = (ls, t)" by fastforce
  note put = lf_put_ok [OF ok nonl cl, of unsafe]
  have small: "length t \<le> MaxLineBytes" and "lw_floods ?fw = 0"
    using snoc.prems put by (auto split: if_splits)
  with snoc.IH have fw: "?fw = \<lparr>lw_w = sink_lines unsafe wr w (fst (cut_lines [] (concat ps))),
     lw_buf = snd (cut_lines [] (concat ps)), lw_floods = 0\<rparr>" by simp
  have "cut_lines [] (concat (ps @ [p])) = (fst (cut_lines [] (concat ps)) @ ls, t)"
    using cl by (auto simp: fw cut_lines_append split: prod.splits)
  then show ?case using put small by (simp add: fw sink_lines_append)
qed

text \<open>The lines the filter lets through, escaped; the last may have no newline.\<close>

definition shown_lines :: "(rune \<Rightarrow> bool) \<Rightarrow> bytes \<Rightarrow> bytes list" where
  "shown_lines unsafe s =
     (case cut_lines [] s of (ls, t) \<Rightarrow>
        map (sanitizeControlBytes unsafe)
          (filter (\<lambda>l. \<not> shouldFilterLine l) (ls @ (if t = [] then [] else [t]))))"

lemma stream_filtered:
  assumes "\<forall>w x. fst (wr w x) = None"
    and "lf_Floods (foldl (lf_put unsafe wr) (New w) ps) = 0"
  shows "\<exists>fw. lf_Flush unsafe wr (foldl (lf_put unsafe wr) (New w) ps) = (None, fw) \<and> lw_buf fw = [] \<and>
    lf_Floods fw = 0 \<and> lw_w fw = foldl (\<lambda>w l. snd (wr w l)) w (shown_lines unsafe (concat ps))"
proof -
  obtain ls t where cl: "cut_lines [] (concat ps) = (ls, t)" by fastforce
  have "foldl (lf_put unsafe wr) (New w) ps =
      \<lparr>lw_w = sink_lines unsafe wr w ls, lw_buf = t, lw_floods = 0\<rparr>"
    using stream_state [OF assms(1), of unsafe w ps] assms(2) by (simp add: lf_Floods_def cl)
  then show ?thesis
    using sink_lines_append [of unsafe wr w ls "[t]"]
    by (simp add: shown_lines_def cl lf_Flush_def emit_ok [OF assms(1)] sink_lines_def lf_Floods_def)
qed

text \<open>A stream whose lines all fit into the buffer never floods it, however it is cut into writes.\<close>

definition lines_fit :: "bytes \<Rightarrow> bool" where
  "lines_fit s \<longleftrightarrow> (case cut_lines [] s of (ls, t) \<Rightarrow> \<forall>l \<in> set (t # ls). length l \<le> MaxLineBytes)"

lemma cut_lines_grows: "cut_lines cur s = (ls, t) \<Longrightarrow> length cur \<le> length (hd (ls @ [t]))"
  by (induction cur s arbitrary: ls t rule: cut_lines.induct) (auto split: if_splits prod.splits)

lemma lines_fit_prefix: "lines_fit (p @ q) \<Longrightarrow> lines_fit p"
proof -
  assume fit: "lines_fit (p @ q)"
  obtain ls t where p: "cut_lines [] p = (ls, t)" by fastforce
  obtain ls' t' where q: "cut_lines t q = (ls', t')" by fastforce
  have "\<forall>l \<in> set (ls @ ls' @ [t']). length l \<le> MaxLineBytes"
    using fit by (auto simp: lines_fit_def cut_lines_append p q)
  moreover have "length t \<le> length (hd (ls' @ [t']))" by (rule cut_lines_grows [OF q])
  ultimately show ?thesis by (cases ls') (auto simp: lines_fit_def p)
qed

lemma fit_no_flood:
  assumes ok: "\<forall>w x. fst (wr w x) = None"
  shows "lines_fit (concat ps) \<Longrightarrow> lf_Floods (foldl (lf_put unsafe wr) (New w) ps) = 0"
proof (induction ps rule: rev_induct)
  case Nil
  then show ?case by (simp add: lf_Floods_def New_def)
next
  case (snoc p ps)
  let ?fw = "foldl (lf_put unsafe wr) (New w) ps"
  have "lines_fit (concat ps)" using snoc.prems lines_fit_prefix [of "concat ps" p] by simp
  then have fl: "lw_floods ?fw = 0" using snoc.IH by (simp add: lf_Floods_def)
  have nonl: "nl \<notin> set (lw_buf ?fw)"
    using filter_state.run_inv [of "New w" unsafe wr ps] by (simp add: buf_bounded_def New_def)
  obtain ls t where cl: "cut_lines (lw_buf ?fw) p = (ls, t)" by fastforce
  have "lw_buf ?fw = snd (cut_lines [] (concat ps))" using stream_state [OF ok fl] by simp
  then have "snd (cut_lines [] (concat (ps @ [p]))) = t"
    using cl by (auto simp: cut_lines_append split: prod.splits)
  then have "length t \<le> MaxLineBytes" using snoc.prems by (auto simp: lines_fit_def split: prod.splits)
  then show ?case using lf_put_ok [OF ok nonl cl, of unsafe] fl by (simp add: lf_Floods_def)
qed

text \<open>
  C6. Chunking is invisible: as long as the sink accepts writes and no partial line overflows, the
  filter over any sequence of writes followed by \<open>Flush\<close> sends the sink exactly the lines of the whole
  stream (the last one with or without its newline), in order, noise removed, each escaped; nothing
  else, and nothing is left behind.
\<close>

theorem linefilter_stream:
  assumes "\<forall>w x. fst (wr w x) = None"
    and "lf_Floods (foldl (lf_put unsafe wr) (New w) ps) = 0"
  shows "case lf_Flush unsafe wr (foldl (lf_put unsafe wr) (New w) ps) of (err, fw) \<Rightarrow>
     err = None \<and> lw_buf fw = [] \<and>
     (case cut_lines [] (concat ps) of (ls, t) \<Rightarrow>
        lw_w fw = foldl (\<lambda>w l. snd (wr w l)) w
          (map (sanitizeControlBytes unsafe)
             (filter (\<lambda>l. \<not> shouldFilterLine l) (ls @ (if t = [] then [] else [t])))))"
  using stream_filtered [OF assms] by (auto simp: shown_lines_def split: prod.splits)

definition list_sink :: "bytes list \<Rightarrow> bytes \<Rightarrow> syserr option \<times> bytes list" where
  "list_sink w x = (None, w @ [x])"

theorem linefilter_stream_witness:
  "lw_w (snd (lf_Flush (\<lambda>_. False) list_sink
      (foldl (lf_put (\<lambda>_. False) list_sink) (New []) [''ab'', [CHR ''c'', nl], ''d''])))
   = map (sanitizeControlBytes (\<lambda>_. False))
       (filter (\<lambda>l. \<not> shouldFilterLine l) [''abc'' @ [nl], ''d''])"
proof -
  have fl: "lf_Floods (foldl (lf_put (\<lambda>_. False) list_sink) (New []) [''ab'', [CHR ''c'', nl], ''d'']) = 0"
    by (simp add: lf_Floods_def lf_put_ok list_sink_def New_def MaxLineBytes_def)
  have ok: "\<forall>w x. fst (list_sink w x) = None" by (simp add: list_sink_def)
  have app: "foldl (\<lambda>w l. snd (list_sink w l)) w xs = w @ xs" for w xs
    by (induction xs arbitrary: w) (simp_all add: list_sink_def)
  from linefilter_stream [OF ok fl] show ?thesis by (simp add: app split: prod.splits)
qed

end
