(* ===== verification/Scheduler.thy ===== *)
theory Scheduler
  imports Config Capbuf Linefilter
begin

text \<open>
  \<open>scheduler.go\<close>: one scan with its optional action. The state the job works on is the record
  \<open>world\<close>: files, the scan lock, the log, the terminal and the commands started. What the operating
  system and third-party code answer during one job is the record \<open>jobenv\<close>; in particular \<open>je_newCmd\<close>
  stands for the fclones process, which yields its output in chunks, its error, the instant it ends and
  what it does to the files: it keeps a cache, and as an action it removes, links or moves duplicates.

  A \<open>defer\<close> of the source is an update after the deferred part has returned, on every path.
\<close>

subsection \<open>State and environment\<close>

record 't world =
  w_fs :: "bytes \<Rightarrow> bytes option"
  w_locked :: bool
  w_log :: "logline list"
  w_term :: 't
  w_cmds :: "bytes list list"

record cmdres =
  cr_stdout :: "bytes list"
  cr_stderr :: "bytes list"
  cr_err :: "goerr option"
  cr_end :: instant
  cr_files :: "(bytes \<Rightarrow> bytes option) \<Rightarrow> bytes \<Rightarrow> bytes option"

text \<open>The instants at which one phase creates its context, starts, and classifies.\<close>

record phase_clock =
  pc_ctx :: instant
  pc_start :: instant
  pc_samples :: "instant \<times> instant \<times> instant"

record ('t, 'd) jobenv =
  je_unicode :: unicode_tables
  je_unsafe :: "rune \<Rightarrow> bool"
  je_wr :: "'t \<Rightarrow> bytes \<Rightarrow> syserr option \<times> 't"
  je_TryLock :: "syserr + bool"
  je_rand :: "bytes option"
  je_CreateTemp :: "syserr + bytes"
  je_newCmd :: "context_t \<Rightarrow> bytes list \<Rightarrow> bytes \<Rightarrow> cmdres"
  je_closeTemp :: "syserr option"
  je_openReport :: "syserr option"
  je_closeReport :: "syserr option"
  je_jdec :: "'d jdec"
  je_NewDecoder :: "bytes \<Rightarrow> 'd"
  je_removeFails :: bool
  je_scanClock :: phase_clock
  je_actionCheck :: instant
  je_openAction :: "syserr option"
  je_actionClock :: phase_clock

definition put_log :: "logline \<Rightarrow> 't world \<Rightarrow> 't world" where
  "put_log l w = w\<lparr>w_log := w_log w @ [l]\<rparr>"

definition put_logs :: "logline list \<Rightarrow> 't world \<Rightarrow> 't world" where
  "put_logs ls w = w\<lparr>w_log := w_log w @ ls\<rparr>"

text \<open>\<open>os.Open\<close> of a report: the error the system gives, or the content of the file.\<close>

definition os_Open :: "syserr option \<Rightarrow> 't world \<Rightarrow> bytes \<Rightarrow> goerr + bytes" where
  "os_Open fails w path =
     (case fails of
        Some e \<Rightarrow> Inl (ErrSys e)
      | None \<Rightarrow> (case w_fs w path of
                   None \<Rightarrow> Inl (ErrSys ''no such file or directory'')
                 | Some content \<Rightarrow> Inr content))"

text \<open>A logger made by \<open>slog.With\<close>: its attributes come first on every line.\<close>

definition wlog :: "attrs \<Rightarrow> level \<Rightarrow> bytes \<Rightarrow> attrs \<Rightarrow> 't world \<Rightarrow> 't world" where
  "wlog base lv msg as w = put_log (logl lv msg (base @ as)) w"

definition outcome_tag :: "bytes \<Rightarrow> bytes \<times> logv" where
  "outcome_tag s = (''outcome'', VStr s)"

text \<open>\<open>int(duration.Round(time.Second).Seconds())\<close>: half away from zero.\<close>

definition round_seconds :: "duration \<Rightarrow> int" where
  "round_seconds d = sgn d * ((\<bar>d\<bar> + 500000000) div second)"

subsection \<open>Stale reports\<close>

definition reportTempPattern :: "bytes \<times> bytes" where
  "reportTempPattern = (''fclones_report_'', ''.txt'')"

text \<open>\<open>filepath.Glob\<close> of that pattern in a directory, on the names of the files there.\<close>

definition matches_temp :: "bytes \<Rightarrow> bytes \<Rightarrow> bool" where
  "matches_temp dir path \<longleftrightarrow>
     (let pre = dir @ ''/'' @ fst reportTempPattern; suf = snd reportTempPattern;
          mid = take (length path - length pre - length suf) (drop (length pre) path) in
      path = pre @ mid @ suf \<and> CHR ''/'' \<notin> set mid)"

text \<open>The sweep over the matches; \<open>fails\<close> is the error \<open>os.Remove\<close> gives for a path, if any.\<close>

fun sweep_loop :: "(bytes \<Rightarrow> syserr option) \<Rightarrow> bytes list \<Rightarrow> 't world \<Rightarrow> 't world" where
  "sweep_loop fails [] w = w"
| "sweep_loop fails (m # ms) w =
     (case fails m of
        Some e \<Rightarrow> sweep_loop fails ms (wlog [] Warn ''failed to remove stale report temp file''
                   [(''path'', VStr m), (''error'', VErr (ErrSys e))] w)
      | None \<Rightarrow> sweep_loop fails ms (wlog [] Debug ''removed stale report temp file'' [(''path'', VStr m)]
                   (w\<lparr>w_fs := (w_fs w)(m := None)\<rparr>)))"

text \<open>\<open>glob\<close> lists the files of the directory; \<open>None\<close> is a failed \<open>filepath.Glob\<close>.\<close>

definition sweepStaleReports ::
  "(bytes \<Rightarrow> syserr option) \<Rightarrow> bytes list option \<Rightarrow> bytes \<Rightarrow> 't world \<Rightarrow> 't world" where
  "sweepStaleReports fails glob dir w =
     (case glob of None \<Rightarrow> w | Some names \<Rightarrow> sweep_loop fails (filter (matches_temp dir) names) w)"

definition cleanStaleReports ::
  "syserr + bool \<Rightarrow> (bytes \<Rightarrow> syserr option) \<Rightarrow> bytes list option \<Rightarrow> 't world \<Rightarrow> 't world" where
  "cleanStaleReports lock fails glob w =
     (case lock of
        Inl e \<Rightarrow> wlog [] Warn ''cannot acquire scan lock for stale-report sweep, skipping; orphaned report temp files (if any) will be reclaimed on a later startup''
                   [(''path'', VStr lockFile), (''error'', VErr (ErrSys e))] w
      | Inr False \<Rightarrow> wlog [] Debug ''scan in flight, skipping stale-report sweep'' [] w
      | Inr True \<Rightarrow> (sweepStaleReports fails glob cacheDir (w\<lparr>w_locked := True\<rparr>))\<lparr>w_locked := False\<rparr>)"

subsection \<open>Helpers of the job\<close>

definition newScanID :: "bytes option \<Rightarrow> bytes" where
  "newScanID r =
     (case r of
        None \<Rightarrow> ''unknown''
      | Some b \<Rightarrow> concat (map (\<lambda>c. [hexDigits ! (byte_val c div 16), hexDigits ! (byte_val c mod 16)]) b))"

definition markerAction :: "ctxerr option \<Rightarrow> goerr option \<Rightarrow> bool \<times> bool" where
  "markerAction ctxErr runErr =
     (if ctxErr \<noteq> None then (False, False) else (True, runErr = None))"

definition stream_trio :: "(rune \<Rightarrow> bool) \<Rightarrow> bytes \<Rightarrow> Buffer \<Rightarrow> attrs" where
  "stream_trio unsafe name b =
     [(name, VStr (EscapeUnsafe unsafe (buf_String b))),
      (name @ ''_total_bytes'', VInt (buf_Total b)),
      (name @ ''_truncated'', VBool (buf_Truncated b))]"

definition streamAttrs :: "(rune \<Rightarrow> bool) \<Rightarrow> Buffer \<Rightarrow> Buffer option \<Rightarrow> attrs" where
  "streamAttrs unsafe stderr stdout =
     stream_trio unsafe ''stderr'' stderr @
     (case stdout of Some b \<Rightarrow> stream_trio unsafe ''stdout'' b | None \<Rightarrow> [])"

text \<open>Returns \<open>(done, err)\<close> and the world with the terminal outcome logged.\<close>

definition classifyAndLogOutcome ::
  "(rune \<Rightarrow> bool) \<Rightarrow> context_t \<Rightarrow> context_t \<Rightarrow> instant \<times> instant \<times> instant \<Rightarrow> attrs \<Rightarrow> bytes \<Rightarrow> goerr option
     \<Rightarrow> duration \<Rightarrow> duration \<Rightarrow> Buffer \<Rightarrow> Buffer option \<Rightarrow> attrs \<Rightarrow> 't world
     \<Rightarrow> (bool \<times> goerr option) \<times> 't world" where
  "classifyAndLogOutcome unsafe parent phaseCtx ts base phase runErr timeout dur stderr stdout extra w =
     (let outcome = classifyExecOutcome parent phaseCtx ts runErr;
          tags = [(''reason'', VStr (outcome_String outcome)), outcome_tag (outcome_String outcome)] in
      case outcome of
        outcomeSuccess \<Rightarrow> ((False, None), w)
      | outcomeShutdown \<Rightarrow>
          ((True, None),
           wlog base Info (phase @ '' interrupted'') (tags @ [(''cause'', VErr (c_cause parent))] @ extra) w)
      | outcomeTimeout \<Rightarrow>
          ((True, Some (ErrPhaseTimeout phase timeout)),
           wlog base Error (phase @ '' timeout exceeded'')
             (tags @ [(''timeout'', VDur timeout), (''duration'', VDur dur),
                      (''duration_s'', VInt (round_seconds dur))] @
              streamAttrs unsafe stderr stdout @ extra) w)
      | outcomeExecError \<Rightarrow>
          ((True, Some (ErrPhaseExec phase (the runErr))),
           wlog base Error (phase @ '' failed'')
             (tags @ [(''duration'', VDur dur), (''duration_s'', VInt (round_seconds dur)),
                      (''error'', VErr (the runErr))] @
              streamAttrs unsafe stderr stdout @ extra) w))"

definition buildScanArgs :: "config \<Rightarrow> goerr + bytes list" where
  "buildScanArgs cfg =
     bind_err (map_err (\<lambda>e. ErrScanPathSyntax (ErrArgs e)) (Parse (ScanPath cfg))) (\<lambda>scanArgs.
     bind_err (if cfgArgs cfg \<noteq> [] then map_err (\<lambda>e. ErrArgsSyntax (ErrArgs e)) (Parse (cfgArgs cfg)) else Inr [])
       (\<lambda>extraArgs.
     Inr ([action_String actionGroup] @ scanArgs @ extraArgs @ [''--cache'', ''-f'', ''json''])))"

text \<open>\<open>None\<close> is the nil argument list of the report-only action.\<close>

definition buildActionArgs :: "config \<Rightarrow> goerr + bytes list option" where
  "buildActionArgs cfg =
     (if Action cfg = actionGroup then Inr None
      else bind_err (if ActionArgs cfg \<noteq> [] then map_err (\<lambda>e. ErrActionArgsSyntax (ErrArgs e)) (Parse (ActionArgs cfg))
                     else Inr [])
        (\<lambda>extraArgs. Inr (Some ([action_String (Action cfg)] @ extraArgs))))"

definition shouldRunAction :: "attrs \<Rightarrow> config \<Rightarrow> bool \<Rightarrow> 't world \<Rightarrow> bool \<times> 't world" where
  "shouldRunAction base cfg hasDuplicates w =
     (if Action cfg = actionGroup then (False, w)
      else if \<not> hasDuplicates
      then (False, wlog base Info ''action skipped''
              [(''action'', VStr (action_String (Action cfg))), (''reason'', VStr ''no_duplicates'')] w)
      else (True, w))"

definition maxLoggedGroups :: int where "maxLoggedGroups = 100"
definition maxLoggedPairs :: int where "maxLoggedPairs = 500"

text \<open>
  The nested loops of \<open>logDuplicateGroups\<close>: pairs logged, bytes counted, lines written. The flag says
  that \<open>break pairs\<close> left both loops.
\<close>

fun dup_loop ::
  "nat \<Rightarrow> DuplicateGroup \<Rightarrow> bytes list \<Rightarrow> int \<times> int \<times> logline list \<Rightarrow> bool \<times> int \<times> int \<times> logline list" where
  "dup_loop i g [] st = (False, st)"
| "dup_loop i g (dup # dups) (pairs, detail, ls) =
     (if maxLoggedPairs \<le> pairs then (True, pairs, detail, ls)
      else let detail' = detail + int (length (dg_Keeper g)) + int (length dup) in
        if logDetailCapBytes < detail'
        then (True, pairs, detail', ls @ [logl Info ''duplicate detail truncated, byte cap reached''
                [(''logged_pairs'', VInt pairs), (''cap_bytes'', VInt logDetailCapBytes)]])
        else dup_loop i g dups (pairs + 1, detail', ls @ [logl Info ''duplicate file''
                [(''group'', VInt (int i + 1)), (''keeper'', VStr (dg_Keeper g)),
                 (''duplicate'', VStr dup), (''size'', VStr (dg_SizePerDup g))]]))"

fun dup_groups :: "nat \<Rightarrow> DuplicateGroup list \<Rightarrow> int \<times> int \<times> logline list \<Rightarrow> int \<times> int \<times> logline list" where
  "dup_groups i [] st = st"
| "dup_groups i (g # gs) st =
     (case dup_loop i g (dg_Duplicates g) st of
        (broke, st') \<Rightarrow> if broke then st' else dup_groups (i + 1) gs st')"

definition duplicate_lines :: "Report \<Rightarrow> logline list" where
  "duplicate_lines report =
     (case dup_groups 0 (rp_Groups report) (0, 0, []) of
        (pairs, _, ls) \<Rightarrow>
          ls @ (if pairs < rp_TotalDuplicates report
                then [logl Info ''duplicate pairs truncated''
                        [(''logged_pairs'', VInt pairs), (''total_pairs'', VInt (rp_TotalDuplicates report)),
                         (''logged_groups'', VInt (int (length (rp_Groups report)))),
                         (''total_groups'', VInt (rp_TotalGroups report))]]
                else []))"

definition logDuplicateGroups :: "attrs \<Rightarrow> Report \<Rightarrow> 't world \<Rightarrow> 't world" where
  "logDuplicateGroups base report w =
     put_logs (map (\<lambda>l. l\<lparr>l_attrs := base @ l_attrs l\<rparr>) (duplicate_lines report)) w"

definition resolveActionSummary ::
  "unicode_tables \<Rightarrow> attrs \<Rightarrow> action \<Rightarrow> bytes \<Rightarrow> bytes \<Rightarrow> 't world \<Rightarrow> ActionSummary \<times> 't world" where
  "resolveActionSummary U base act stderrOut stdoutOut w =
     (let s1 = ParseActionSummary U stderrOut;
          summary = (if as_Matched s1 then s1
                     else let alt = ParseActionSummary U stdoutOut in
                       if as_Matched alt \<or> as_RawLine s1 = [] then alt else s1) in
      (summary,
       if \<not> as_Matched summary \<and> as_RawLine summary \<noteq> []
       then wlog base Warn ''action summary not recognized, possible fclones format drift''
              [(''action'', VStr (action_String act)), (''result'', VStr (as_RawLine summary))] w
       else w))"

definition actionAccomplishedNothing :: "ActionSummary \<Rightarrow> bool" where
  "actionAccomplishedNothing summary \<longleftrightarrow> as_Matched summary \<and> as_Files summary = 0"

subsection \<open>Running a command\<close>

text \<open>
  \<open>os/exec\<close> copies the stderr of the process into the tee of filter and buffer, chunk by chunk; a failed
  write ends the copy and becomes the error of \<open>Run\<close> unless the process itself failed.
\<close>

fun copy_stderr ::
  "(rune \<Rightarrow> bool) \<Rightarrow> ('t \<Rightarrow> bytes \<Rightarrow> syserr option \<times> 't) \<Rightarrow> bytes list \<Rightarrow> 't Writer \<times> Buffer
     \<Rightarrow> write_err option \<times> 't Writer \<times> Buffer" where
  "copy_stderr unsafe wr [] vw = (None, vw)"
| "copy_stderr unsafe wr (p # ps) vw =
     (case multi_write (lf_Write unsafe wr) buf_Write vw p of
        (_, Some e, vw') \<Rightarrow> (Some e, vw')
      | (_, None, vw') \<Rightarrow> copy_stderr unsafe wr ps vw')"

definition run_error :: "goerr option \<Rightarrow> write_err option \<Rightarrow> goerr option" where
  "run_error procErr copyErr =
     (case procErr of
        Some e \<Rightarrow> Some e
      | None \<Rightarrow> (case copyErr of
                   Some (SinkErr e) \<Rightarrow> Some (ErrSys e)
                 | Some ErrShortWrite \<Rightarrow> Some (ErrSys ''short write'')
                 | None \<Rightarrow> None))"

text \<open>
  From the construction of the filter to the flood warning, shared by both phases. Returns the error of
  \<open>Run\<close>, the duration, the captured stderr, what the process wrote to stdout, and the world with the
  files as the process left them.
\<close>

definition run_phase ::
  "('t, 'd) jobenv \<Rightarrow> phase_clock \<Rightarrow> context_t \<Rightarrow> attrs \<Rightarrow> bytes list \<Rightarrow> bytes \<Rightarrow> 't world
     \<Rightarrow> goerr option \<times> duration \<times> Buffer \<times> bytes list \<times> 't world" where
  "run_phase E clk phaseCtx base argv stdin w =
     (let res = je_newCmd E phaseCtx argv stdin;
          w1 = w\<lparr>w_cmds := w_cmds w @ [argv], w_fs := cr_files res (w_fs w)\<rparr> in
      case copy_stderr (je_unsafe E) (je_wr E) (cr_stderr res) (New (w_term w1), new_buffer streamCapBytes) of
        (copyErr, fw, errBuf) \<Rightarrow>
          (case lf_Flush (je_unsafe E) (je_wr E) fw of
             (_, fw') \<Rightarrow>
               let w2 = w1\<lparr>w_term := lw_w fw'\<rparr>;
                   n = lf_Floods fw';
                   w3 = (if 0 < n
                         then wlog base Warn ''fclones emitted a no-newline output flood; partial line force-flushed at cap''
                                [(''flood_count'', VInt (int n)), (''cap_bytes'', VInt (int MaxLineBytes))] w2
                         else w2)
               in (run_error (cr_err res) copyErr, cr_end res - pc_start clk, errBuf, cr_stdout res, w3)))"

subsection \<open>The action phase\<close>

definition action_complete_attrs :: "action \<Rightarrow> duration \<Rightarrow> ActionSummary \<Rightarrow> attrs" where
  "action_complete_attrs act dur summary =
     [(''action'', VStr (action_String act)), (''duration_s'', VInt (round_seconds dur)),
      (''files_deduped'', VInt (as_Files summary)), (''bytes_reclaimed'', VInt (as_ReclaimedBytes summary)),
      (''reclaimed_human'', VStr (HumanBytes (as_ReclaimedBytes summary)))] @
     (if as_Estimated summary then [(''reclaimed_estimated'', VBool True)] else []) @
     (if as_Files summary = 0 \<and> as_ReclaimedBytes summary = 0 \<and> as_RawLine summary \<noteq> []
      then [(''result'', VStr (as_RawLine summary))] else [])"

text \<open>After the process: classification, summary, truncation warning, verdict.\<close>

definition finish_action ::
  "('t, 'd) jobenv \<Rightarrow> context_t \<Rightarrow> context_t \<Rightarrow> config \<Rightarrow> attrs
     \<Rightarrow> goerr option \<times> duration \<times> Buffer \<times> bytes list \<times> 't world \<Rightarrow> goerr option \<times> 't world" where
  "finish_action E ctx actionCtx cfg base r =
     (case r of (runErr, dur, stderr, outs, w) \<Rightarrow>
        let stdout = foldl buf_put (new_buffer streamCapBytes) outs;
            act = action_String (Action cfg) in
        (case classifyAndLogOutcome (je_unsafe E) ctx actionCtx (pc_samples (je_actionClock E)) base ''action''
                runErr (PhaseTimeout cfg) dur stderr (Some stdout) [(''action'', VStr act)] w of
           ((dn, phaseErr), w1) \<Rightarrow>
             if dn then (phaseErr, w1)
             else
               (case resolveActionSummary (je_unicode E) base (Action cfg) (buf_String stderr) (buf_String stdout) w1 of
                  (summary, w2) \<Rightarrow>
                    let w3 = (if buf_Truncated stdout \<or> buf_Truncated stderr
                              then wlog base Warn ''action output exceeded capture cap; summary stats may be incomplete''
                                     [(''action'', VStr act),
                                      (''stdout_total_bytes'', VInt (buf_Total stdout)),
                                      (''stdout_truncated'', VBool (buf_Truncated stdout)),
                                      (''stderr_total_bytes'', VInt (buf_Total stderr)),
                                      (''stderr_truncated'', VBool (buf_Truncated stderr)),
                                      (''cap_bytes'', VInt streamCapBytes)] w2
                              else w2);
                        raw = EscapeUnsafe (je_unsafe E) (as_RawLine summary) in
                    if actionAccomplishedNothing summary
                    then (Some (ErrActionNoOp act raw),
                          wlog base Error ''action reclaimed nothing; failing the run''
                            [(''reason'', VStr ''action_no_op''), outcome_tag ''action_no_op'',
                             (''action'', VStr act), (''duration_s'', VInt (round_seconds dur)),
                             (''files_deduped'', VInt (as_Files summary)),
                             (''bytes_reclaimed'', VInt (as_ReclaimedBytes summary)),
                             (''result'', VStr raw)] w3)
                    else (None, wlog base Info ''action complete''
                            (action_complete_attrs (Action cfg) dur summary) w3))))"

definition runFclonesAction ::
  "('t, 'd) jobenv \<Rightarrow> context_t \<Rightarrow> config \<Rightarrow> bytes \<Rightarrow> attrs \<Rightarrow> 't world \<Rightarrow> goerr option \<times> 't world" where
  "runFclonesAction E ctx cfg reportPath base w =
     (case buildActionArgs cfg of
        Inl e \<Rightarrow> (Some e, wlog base Error ''invalid FCLONES_ACTION_ARGS syntax''
                          [outcome_tag ''start_error'', (''error'', VErr e)] w)
      | Inr None \<Rightarrow> (None, w)
      | Inr (Some argv) \<Rightarrow>
          if ctx_Err ctx (je_actionCheck E) \<noteq> None
          then (None, wlog base Info ''action skipped, shutting down''
                  [outcome_tag (outcome_String outcomeShutdown)] w)
          else
            let actionCtx = phaseContext ctx (PhaseTimeout cfg) (pc_ctx (je_actionClock E));
                w1 = wlog base Info ''performing action''
                       [(''binary'', VStr ''fclones''), (''args'', VArgs argv), (''report'', VStr reportPath)] w in
            (case os_Open (je_openAction E) w1 reportPath of
               Inl e \<Rightarrow> (Some e, wlog base Error ''failed to open report for action''
                                [outcome_tag ''start_error'', (''error'', VErr e)] w1)
             | Inr content \<Rightarrow>
                 finish_action E ctx actionCtx cfg base
                   (run_phase E (je_actionClock E) actionCtx base argv content w1)))"

subsection \<open>The scan phase\<close>

text \<open>Fuel for the group loop: no report holds more groups than bytes.\<close>

definition report_fuel :: "bytes \<Rightarrow> nat" where
  "report_fuel content = Suc (length content)"

text \<open>Everything after a successful decode.\<close>

definition after_report ::
  "('t, 'd) jobenv \<Rightarrow> context_t \<Rightarrow> config \<Rightarrow> bytes \<Rightarrow> attrs \<Rightarrow> duration \<Rightarrow> Report \<Rightarrow> 't world
     \<Rightarrow> goerr option \<times> 't world" where
  "after_report E ctx cfg tmpPath base dur report w =
     (let hasDuplicates = 0 < rp_TotalGroups report;
          w1 = wlog base Info ''scan complete''
                 [(''duration_s'', VInt (round_seconds dur)),
                  (''redundant_human'', VStr (HumanBytes (rs_RedundantFileSize (rp_Stats report)))),
                  (''groups'', VInt (rp_TotalGroups report)),
                  (''duplicate_files'', VInt (rp_TotalDuplicates report)),
                  (''duplicates_found'', VBool hasDuplicates)] w;
          w2 = (if hasDuplicates then logDuplicateGroups base report w1 else w1) in
      case shouldRunAction base cfg hasDuplicates w2 of
        (go, w3) \<Rightarrow> if \<not> go then (None, w3) else runFclonesAction E ctx cfg tmpPath base w3)"

definition read_report ::
  "('t, 'd) jobenv \<Rightarrow> context_t \<Rightarrow> config \<Rightarrow> bytes \<Rightarrow> attrs \<Rightarrow> duration \<Rightarrow> 't world \<Rightarrow> goerr option \<times> 't world" where
  "read_report E ctx cfg tmpPath base dur w =
     (case os_Open (je_openReport E) w tmpPath of
        Inl e \<Rightarrow>
          (Some e, wlog base Error ''failed to open report for decode''
             [(''reason'', VStr ''decode_error''), outcome_tag ''decode_error'', (''error'', VErr e)] w)
      | Inr content \<Rightarrow>
          let dec = DecodeReport (report_fuel content) (je_jdec E) (je_NewDecoder E content) maxLoggedGroups;
              w1 = (case je_closeReport E of
                      Some ce \<Rightarrow> wlog base Warn ''failed to close report file after decode''
                                   [(''error'', VErr (ErrSys ce))] w
                    | None \<Rightarrow> w) in
          (case dec of
             Inl decErr \<Rightarrow>
               (Some (ErrDecodeReport (ErrReport decErr)),
                wlog base Error ''fclones report decode failed; failing the run''
                  [(''reason'', VStr ''decode_error''), outcome_tag ''decode_error'',
                   (''error'', VErr (ErrReport decErr))] w1)
           | Inr report \<Rightarrow> after_report E ctx cfg tmpPath base dur report w1))"

text \<open>The job once its report file exists; the caller removes the file.\<close>

definition scan_with_report ::
  "('t, 'd) jobenv \<Rightarrow> context_t \<Rightarrow> config \<Rightarrow> bytes list \<Rightarrow> bytes \<Rightarrow> attrs \<Rightarrow> 't world \<Rightarrow> goerr option \<times> 't world" where
  "scan_with_report E ctx cfg scanArgs tmpPath base w =
     (let w1 = wlog base Info ''scan starting''
                 [(''target'', VStr (ScanPath cfg)), (''binary'', VStr ''fclones''),
                  (''args'', VArgs scanArgs), (''timeout'', VDur (PhaseTimeout cfg))] w;
          scanCtx = phaseContext ctx (PhaseTimeout cfg) (pc_ctx (je_scanClock E)) in
      case run_phase E (je_scanClock E) scanCtx base scanArgs [] w1 of
        (runErr, dur, errBuf, outs, w2) \<Rightarrow>
          let w3 = w2\<lparr>w_fs := (w_fs w2)(tmpPath := Some (concat outs))\<rparr>;
              w4 = (case je_closeTemp E of
                      Some ce \<Rightarrow> wlog base Warn ''failed to close report temp file'' [(''error'', VErr (ErrSys ce))] w3
                    | None \<Rightarrow> w3) in
          (case classifyAndLogOutcome (je_unsafe E) ctx scanCtx (pc_samples (je_scanClock E)) base ''scan''
                  runErr (PhaseTimeout cfg) dur errBuf None [] w4 of
             ((dn, phaseErr), w5) \<Rightarrow>
               if dn then (phaseErr, w5) else read_report E ctx cfg tmpPath base dur w5))"

text \<open>The job under the lock; the caller releases it.\<close>

definition locked_job ::
  "('t, 'd) jobenv \<Rightarrow> context_t \<Rightarrow> config \<Rightarrow> bytes \<Rightarrow> 't world \<Rightarrow> goerr option \<times> 't world" where
  "locked_job E ctx cfg trigger w =
     (let base = [(''scan_id'', VStr (newScanID (je_rand E))), (''trigger'', VStr trigger)] in
      case buildScanArgs cfg of
        Inl e \<Rightarrow> (Some e, wlog base Error ''scan failed to start''
                   [(''reason'', VStr ''bad_args''), outcome_tag ''start_error'', (''error'', VErr e)] w)
      | Inr scanArgs \<Rightarrow>
          (case je_CreateTemp E of
             Inl e \<Rightarrow> (Some (ErrSys e), wlog base Error ''scan failed to start''
                   [(''reason'', VStr ''tmpfile''), outcome_tag ''start_error'', (''error'', VErr (ErrSys e))] w)
           | Inr tmpPath \<Rightarrow>
               (case scan_with_report E ctx cfg scanArgs tmpPath base (w\<lparr>w_fs := (w_fs w)(tmpPath := Some [])\<rparr>) of
                  (err, w1) \<Rightarrow>
                    (err, if je_removeFails E then w1 else w1\<lparr>w_fs := (w_fs w1)(tmpPath := None)\<rparr>))))"

definition runFclonesJob ::
  "('t, 'd) jobenv \<Rightarrow> context_t \<Rightarrow> config \<Rightarrow> bytes \<Rightarrow> 't world \<Rightarrow> (bool \<times> goerr option) \<times> 't world" where
  "runFclonesJob E ctx cfg trigger w =
     (case je_TryLock E of
        Inl e \<Rightarrow>
          ((True, Some (ErrSys e)), wlog [] Error ''cannot acquire scan lock''
             [(''trigger'', VStr trigger), outcome_tag ''lock_error'', (''path'', VStr lockFile),
              (''error'', VErr (ErrSys e))] w)
      | Inr False \<Rightarrow>
          ((False, None), wlog [] Info ''job already running elsewhere, skipping overlapping request''
             [(''trigger'', VStr trigger), outcome_tag ''skipped''] w)
      | Inr True \<Rightarrow>
          (case locked_job E ctx cfg trigger (w\<lparr>w_locked := True\<rparr>) of
             (err, w1) \<Rightarrow> ((True, err), w1\<lparr>w_locked := False\<rparr>)))"

subsection \<open>Frames\<close>

lemma wlog_frame [simp]:
  "w_fs (wlog base lv m as w) = w_fs w" "w_locked (wlog base lv m as w) = w_locked w"
  "w_cmds (wlog base lv m as w) = w_cmds w" "w_term (wlog base lv m as w) = w_term w"
  "w_log (wlog base lv m as w) = w_log w @ [logl lv m (base @ as)]"
  by (simp_all add: wlog_def put_log_def)

lemma put_logs_frame [simp]:
  "w_fs (put_logs ls w) = w_fs w" "w_locked (put_logs ls w) = w_locked w"
  "w_cmds (put_logs ls w) = w_cmds w" "w_log (put_logs ls w) = w_log w @ ls"
  by (simp_all add: put_logs_def)

text \<open>
  The world after a step that leaves the lock alone: what it appended to the log and to the list of
  commands. The files are as before if it ran no command.
\<close>

definition appends :: "'t world \<Rightarrow> logline list \<Rightarrow> bytes list list \<Rightarrow> 't world \<Rightarrow> bool" where
  "appends w ls cs w' \<longleftrightarrow>
     w_locked w' = w_locked w \<and> w_log w' = w_log w @ ls \<and> w_cmds w' = w_cmds w @ cs \<and>
     (cs = [] \<longrightarrow> w_fs w' = w_fs w)"

lemma appends_refl: "appends w [] [] w"
  by (simp add: appends_def)

lemma appends_wlog: "appends w [logl lv m (base @ as)] [] (wlog base lv m as w)"
  by (simp add: appends_def)

lemma appends_trans: "appends w ls cs w1 \<Longrightarrow> appends w1 ms ds w2 \<Longrightarrow> appends w (ls @ ms) (cs @ ds) w2"
  by (simp add: appends_def)

text \<open>
  One failure, one error line: the lines a step writes hold exactly one error line with an outcome tag
  when it fails, and none when it does not.
\<close>

definition fail_tags :: "bytes list" where
  "fail_tags = [''lock_error'', ''start_error'', ''timeout'', ''exec_error'', ''decode_error'', ''action_no_op'']"

definition tagged_once :: "goerr option \<Rightarrow> logline list \<Rightarrow> bool" where
  "tagged_once err ls \<longleftrightarrow>
     (case err of
        None \<Rightarrow> at_level Error ls = []
      | Some _ \<Rightarrow> \<exists>l tag. at_level Error ls = [l] \<and> attr l ''outcome'' = Some (VStr tag) \<and>
                 tag \<in> set fail_tags)"

definition plain_base :: "attrs \<Rightarrow> bool" where
  "plain_base base \<longleftrightarrow> map_of base ''outcome'' = None"

definition steps_to :: "'t world \<Rightarrow> goerr option \<Rightarrow> bytes list list \<Rightarrow> 't world \<Rightarrow> bool" where
  "steps_to w err cs w' \<longleftrightarrow> (\<exists>ls. appends w ls cs w' \<and> tagged_once err ls)"

lemma tagged_once_quiet: "at_level Error ls = [] \<Longrightarrow> tagged_once err ms \<Longrightarrow> tagged_once err (ls @ ms)"
  by (simp add: tagged_once_def split: option.splits)

lemma steps_after:
  "appends w ls cs w1 \<Longrightarrow> at_level Error ls = [] \<Longrightarrow> steps_to w1 err ds w2 \<Longrightarrow> steps_to w err (cs @ ds) w2"
  unfolding steps_to_def using appends_trans tagged_once_quiet by blast

lemma tagged_None [simp]: "tagged_once None ls \<longleftrightarrow> at_level Error ls = []"
  by (simp add: tagged_once_def)

lemma steps_quiet:
  assumes "steps_to w None cs w1" "steps_to w1 err ds w2"
  shows "steps_to w err (cs @ ds) w2"
proof -
  obtain ls where "appends w ls cs w1" "at_level Error ls = []"
    using assms(1) by (auto simp: steps_to_def)
  then show ?thesis using assms(2) by (rule steps_after)
qed

lemma steps_ok: "lv \<noteq> Error \<Longrightarrow> steps_to w None [] (wlog base lv m as w)"
  unfolding steps_to_def using appends_wlog by fastforce

lemma steps_refl: "steps_to w None [] w"
  unfolding steps_to_def using appends_refl by fastforce

lemma fail_tags_in [simp]:
  "''lock_error'' \<in> set fail_tags" "''start_error'' \<in> set fail_tags" "''timeout'' \<in> set fail_tags"
  "''exec_error'' \<in> set fail_tags" "''decode_error'' \<in> set fail_tags" "''action_no_op'' \<in> set fail_tags"
  by (simp_all add: fail_tags_def)

text \<open>The attribute lists of the failure lines start with the tag or have one attribute before it.\<close>

lemma steps_fail:
  assumes "plain_base base" "tag \<in> set fail_tags"
  shows "steps_to w (Some e) [] (wlog base Error m (outcome_tag tag # as) w)"
    and "k \<noteq> ''outcome'' \<Longrightarrow> steps_to w (Some e) [] (wlog base Error m ((k, v) # outcome_tag tag # as) w)"
proof -
  have "attr (logl Error m (base @ outcome_tag tag # as)) ''outcome'' = Some (VStr tag)"
    "k \<noteq> ''outcome'' \<Longrightarrow> attr (logl Error m (base @ (k, v) # outcome_tag tag # as)) ''outcome'' = Some (VStr tag)"
    using assms(1) by (simp_all add: plain_base_def attr_def map_add_def outcome_tag_def)
  then show "steps_to w (Some e) [] (wlog base Error m (outcome_tag tag # as) w)"
    and "k \<noteq> ''outcome'' \<Longrightarrow> steps_to w (Some e) [] (wlog base Error m ((k, v) # outcome_tag tag # as) w)"
    using assms(2) appends_wlog unfolding steps_to_def tagged_once_def option.case by fastforce+
qed

lemma classify_steps:
  assumes "classifyAndLogOutcome unsafe parent phaseCtx ts base phase runErr timeout dur stderr stdout extra w
      = ((dn, err), w')" and "plain_base base"
  shows "steps_to w err [] w' \<and> (dn \<longleftrightarrow> classifyExecOutcome parent phaseCtx ts runErr \<noteq> outcomeSuccess) \<and>
    (\<not> dn \<longrightarrow> w' = w \<and> err = None)"
  using assms
  by (cases "classifyExecOutcome parent phaseCtx ts runErr")
    (auto simp: classifyAndLogOutcome_def Let_def
      intro: steps_refl steps_ok steps_fail)

lemma run_phase_steps:
  assumes "run_phase E clk phaseCtx base argv stdin w = (runErr, dur, errBuf, outs, w')"
  shows "steps_to w None [argv] w'"
proof -
  obtain ce fw b where cp: "copy_stderr (je_unsafe E) (je_wr E) (cr_stderr (je_newCmd E phaseCtx argv stdin))
      (New (w_term w), new_buffer streamCapBytes) = (ce, fw, b)" by (metis prod.exhaust)
  obtain fe fw' where fl: "lf_Flush (je_unsafe E) (je_wr E) fw = (fe, fw')" by (metis prod.exhaust)
  let ?w2 = "w\<lparr>w_cmds := w_cmds w @ [argv], w_fs := cr_files (je_newCmd E phaseCtx argv stdin) (w_fs w),
     w_term := lw_w fw'\<rparr>"
  have "appends w [] [argv] ?w2" by (simp add: appends_def)
  moreover have "w' = ?w2 \<or> (\<exists>m as. w' = wlog base Warn m as ?w2)"
    using assms by (auto simp: run_phase_def Let_def cp fl split: if_splits)
  ultimately show ?thesis
    using steps_after [of w "[]" "[argv]" ?w2 None "[]" w'] steps_refl [of ?w2]
      steps_ok [of Warn ?w2 base] by auto
qed


lemma resolve_steps:
  "steps_to w None [] (snd (resolveActionSummary U base act so se w))"
  by (auto simp: resolveActionSummary_def Let_def intro: steps_refl steps_ok)

lemma finish_steps:
  assumes "plain_base base"
  shows "steps_to w (fst (finish_action E ctx actx cfg base (runErr, dur, b, outs, w))) []
    (snd (finish_action E ctx actx cfg base (runErr, dur, b, outs, w)))"
proof -
  let ?stdout = "foldl buf_put (new_buffer streamCapBytes) outs"
  obtain dn err w1 where c: "classifyAndLogOutcome (je_unsafe E) ctx actx (pc_samples (je_actionClock E)) base
      ''action'' runErr (PhaseTimeout cfg) dur b (Some ?stdout)
      [(''action'', VStr (action_String (Action cfg)))] w = ((dn, err), w1)" by (metis prod.exhaust)
  note cs = classify_steps [OF c assms]
  obtain s w2 where r: "resolveActionSummary (je_unicode E) base (Action cfg) (buf_String b) (buf_String ?stdout) w1
      = (s, w2)" by fastforce
  have s2: "steps_to w1 None [] w2" using resolve_steps [of w1] r by (metis snd_conv)
  show ?thesis
  proof (cases dn)
    case True
    then show ?thesis using cs by (simp add: finish_action_def c Let_def)
  next
    case False
    have q: "steps_to w None [] w2" using s2 cs False by simp
    show ?thesis
      using False q
      by (auto simp: finish_action_def c r Let_def
          intro!: steps_quiet [of w "[]" w2 _ "[]", simplified]
            steps_quiet [of w2 "[]" _ _ "[]", OF steps_ok, simplified] steps_ok steps_fail [OF assms])
  qed
qed


lemma steps_wlog: "lv \<noteq> Error \<Longrightarrow> steps_to (wlog base lv m as w) err cs w' \<Longrightarrow> steps_to w err cs w'"
  using steps_quiet [OF steps_ok] by fastforce

text \<open>The command an action runs, when it runs one.\<close>

definition action_cmds :: "('t, 'd) jobenv \<Rightarrow> context_t \<Rightarrow> config \<Rightarrow> bytes list list \<Rightarrow> bool" where
  "action_cmds E ctx cfg cs \<longleftrightarrow>
     cs = [] \<or> (\<exists>argv. cs = [argv] \<and> buildActionArgs cfg = Inr (Some argv) \<and>
                 ctx_Err ctx (je_actionCheck E) = None)"

lemma action_steps:
  assumes "plain_base base"
  shows "\<exists>cs. steps_to w (fst (runFclonesAction E ctx cfg path base w)) cs (snd (runFclonesAction E ctx cfg path base w))
    \<and> action_cmds E ctx cfg cs"
proof (cases "buildActionArgs cfg")
  case (Inl e)
  then show ?thesis
    using steps_fail(1) [OF assms fail_tags_in(2)] by (auto simp: runFclonesAction_def action_cmds_def)
next
  case (Inr o1)
  show ?thesis
  proof (cases o1)
    case None
    then show ?thesis using Inr
      by (auto simp: runFclonesAction_def action_cmds_def intro!: exI [of _ "[]"] steps_refl)
  next
    case (Some argv)
    show ?thesis
    proof (cases "ctx_Err ctx (je_actionCheck E) \<noteq> None")
      case True
      then show ?thesis using Inr Some
        by (auto simp: runFclonesAction_def action_cmds_def intro!: exI [of _ "[]"] steps_ok)
    next
      case live: False
      let ?actx = "phaseContext ctx (PhaseTimeout cfg) (pc_ctx (je_actionClock E))"
      let ?w1 = "wlog base Info ''performing action''
         [(''binary'', VStr ''fclones''), (''args'', VArgs argv), (''report'', VStr path)] w"
      show ?thesis
      proof (cases "os_Open (je_openAction E) ?w1 path")
        case (Inl e)
        then have "runFclonesAction E ctx cfg path base w = (Some e, wlog base Error
            ''failed to open report for action'' [outcome_tag ''start_error'', (''error'', VErr e)] ?w1)"
          using live Inr Some by (simp add: runFclonesAction_def)
        moreover have "steps_to ?w1 (Some e) [] (wlog base Error
            ''failed to open report for action'' [outcome_tag ''start_error'', (''error'', VErr e)] ?w1)"
          by (rule steps_fail [OF assms]) simp
        ultimately show ?thesis
          using steps_wlog [of Info base "''performing action''"] by (force simp: action_cmds_def)
      next
        case content: (Inr content)
        obtain re d b os w2 where rp: "run_phase E (je_actionClock E) ?actx base argv content ?w1
            = (re, d, b, os, w2)" by (metis prod.exhaust)
        have "runFclonesAction E ctx cfg path base w = finish_action E ctx ?actx cfg base (re, d, b, os, w2)"
          using content rp live Inr Some by (simp add: runFclonesAction_def)
        moreover have "steps_to w (fst (finish_action E ctx ?actx cfg base (re, d, b, os, w2))) [argv]
            (snd (finish_action E ctx ?actx cfg base (re, d, b, os, w2)))"
          using steps_quiet [OF run_phase_steps [OF rp] finish_steps [OF assms]]
          by (intro steps_wlog [of Info base _ _ w]) simp_all
        ultimately have "steps_to w (fst (runFclonesAction E ctx cfg path base w)) [argv]
            (snd (runFclonesAction E ctx cfg path base w))" by simp
        then show ?thesis using live Inr Some by (auto simp: action_cmds_def)
      qed
    qed
  qed
qed


subsection \<open>The scan, step by step\<close>

lemma dup_loop_levels:
  "dup_loop i g dups (n, b, ls) = (broke, n', b', ls') \<Longrightarrow> at_level Error ls = [] \<Longrightarrow> at_level Error ls' = []"
  by (induction dups arbitrary: n b ls) (auto simp: Let_def split: if_splits)

lemma dup_groups_levels:
  "dup_groups i gs (n, b, ls) = (n', b', ls') \<Longrightarrow> at_level Error ls = [] \<Longrightarrow> at_level Error ls' = []"
proof (induction gs arbitrary: i n b ls)
  case (Cons g gs)
  then show ?case
    by (auto split: prod.splits if_splits dest: dup_loop_levels)
qed simp

lemma log_groups_steps: "steps_to w None [] (logDuplicateGroups base report w)"
proof -
  obtain n b ls where g: "dup_groups 0 (rp_Groups report) (0, 0, []) = (n, b, ls)" by (metis prod.exhaust)
  have "at_level Error (duplicate_lines report) = []"
    using dup_groups_levels [OF g] by (simp add: duplicate_lines_def g)
  then have "at_level Error (map (\<lambda>l. l\<lparr>l_attrs := base @ l_attrs l\<rparr>) (duplicate_lines report)) = []"
    by (simp add: at_level_def filter_map comp_def)
  then show ?thesis by (auto simp: steps_to_def appends_def logDuplicateGroups_def)
qed

lemma should_run_steps:
  "steps_to w None [] (snd (shouldRunAction base cfg has w)) \<and>
   (fst (shouldRunAction base cfg has w) \<longleftrightarrow> Action cfg \<noteq> actionGroup \<and> has)"
  by (auto simp: shouldRunAction_def intro: steps_refl steps_ok)

text \<open>When a command may follow the scan: duplicates were found and the action is not report-only.\<close>

lemma after_report_steps:
  assumes "plain_base base"
  shows "\<exists>cs. steps_to w (fst (after_report E ctx cfg path base dur rep w)) cs (snd (after_report E ctx cfg path base dur rep w))
    \<and> action_cmds E ctx cfg cs \<and> (cs \<noteq> [] \<longrightarrow> 0 < rp_TotalGroups rep \<and> Action cfg \<noteq> actionGroup)"
proof -
  obtain lg m as where l: "lg \<noteq> Error" and e: "after_report E ctx cfg path base dur rep w =
     (let w1 = wlog base lg m as w;
          w2 = (if 0 < rp_TotalGroups rep then logDuplicateGroups base rep w1 else w1) in
      case shouldRunAction base cfg (0 < rp_TotalGroups rep) w2 of
        (go, w3) \<Rightarrow> if \<not> go then (None, w3) else runFclonesAction E ctx cfg path base w3)"
    by (rule that [of Info "''scan complete''"]) (simp_all only: after_report_def Let_def level.distinct simp_thms)
  let ?w1 = "wlog base lg m as w"
  let ?w2 = "if 0 < rp_TotalGroups rep then logDuplicateGroups base rep ?w1 else ?w1"
  obtain go w3 where sr: "shouldRunAction base cfg (0 < rp_TotalGroups rep) ?w2 = (go, w3)" by fastforce
  have eq: "after_report E ctx cfg path base dur rep w
      = (if go then runFclonesAction E ctx cfg path base w3 else (None, w3))"
    unfolding e Let_def sr by simp
  have "steps_to ?w1 None [] ?w2" by (simp add: log_groups_steps steps_refl)
  moreover have "steps_to ?w2 None [] w3" "go \<longleftrightarrow> Action cfg \<noteq> actionGroup \<and> 0 < rp_TotalGroups rep"
    using should_run_steps [of ?w2 base cfg "0 < rp_TotalGroups rep"] sr by auto
  ultimately have q: "steps_to w None [] w3" and go: "go \<longleftrightarrow> Action cfg \<noteq> actionGroup \<and> 0 < rp_TotalGroups rep"
    using steps_quiet [OF steps_quiet [OF steps_ok [OF l]]] by force+
  show ?thesis
  proof (cases go)
    case True
    obtain cs where "steps_to w3 (fst (runFclonesAction E ctx cfg path base w3)) cs
        (snd (runFclonesAction E ctx cfg path base w3))" "action_cmds E ctx cfg cs"
      using action_steps [OF assms] by blast
    then have "steps_to w (fst (runFclonesAction E ctx cfg path base w3)) cs
        (snd (runFclonesAction E ctx cfg path base w3)) \<and> action_cmds E ctx cfg cs"
      using steps_quiet [OF q] by fastforce
    then show ?thesis using True go by (auto simp: eq)
  next
    case False
    then show ?thesis using q by (auto simp: eq action_cmds_def intro!: exI [of _ "[]"])
  qed
qed


lemma read_report_steps:
  assumes "plain_base base"
  shows "\<exists>cs. steps_to w (fst (read_report E ctx cfg path base dur w)) cs (snd (read_report E ctx cfg path base dur w))
    \<and> action_cmds E ctx cfg cs \<and>
    (cs \<noteq> [] \<longrightarrow> Action cfg \<noteq> actionGroup \<and>
      (\<exists>content rep. w_fs w path = Some content \<and>
         DecodeReport (report_fuel content) (je_jdec E) (je_NewDecoder E content) maxLoggedGroups = Inr rep \<and>
         0 < rp_TotalGroups rep))"
proof (cases "os_Open (je_openReport E) w path")
  case (Inl e)
  then have eq: "read_report E ctx cfg path base dur w = (Some e, wlog base Error ''failed to open report for decode''
      [(''reason'', VStr ''decode_error''), outcome_tag ''decode_error'', (''error'', VErr e)] w)"
    by (simp add: read_report_def)
  show ?thesis
    unfolding eq by (rule exI [of _ "[]"]) (simp add: action_cmds_def steps_fail [OF assms])
next
  case (Inr content)
  then have fs: "w_fs w path = Some content"
    by (simp add: os_Open_def split: option.splits)
  let ?dec = "DecodeReport (report_fuel content) (je_jdec E) (je_NewDecoder E content) maxLoggedGroups"
  define w1 where "w1 = (case je_closeReport E of
      Some ce \<Rightarrow> wlog base Warn ''failed to close report file after decode'' [(''error'', VErr (ErrSys ce))] w
    | None \<Rightarrow> w)"
  have q: "steps_to w None [] w1"
    by (auto simp: w1_def intro: steps_refl steps_ok split: option.splits)
  show ?thesis
  proof (cases ?dec)
    case (Inl de)
    have "steps_to w1 (Some (ErrDecodeReport (ErrReport de))) []
        (wlog base Error ''fclones report decode failed; failing the run''
          [(''reason'', VStr ''decode_error''), outcome_tag ''decode_error'', (''error'', VErr (ErrReport de))] w1)"
      by (rule steps_fail [OF assms]) simp_all
    then have "steps_to w (fst (read_report E ctx cfg path base dur w)) [] (snd (read_report E ctx cfg path base dur w))"
      using steps_quiet [OF q] Inr Inl unfolding w1_def by (fastforce simp: read_report_def Let_def)
    then show ?thesis by (auto simp: action_cmds_def)
  next
    case dec: (Inr rep)
    have eq: "read_report E ctx cfg path base dur w = after_report E ctx cfg path base dur rep w1"
      by (simp add: read_report_def Inr dec Let_def w1_def)
    show ?thesis
      using after_report_steps [OF assms, of w1 E ctx cfg path dur rep] steps_quiet [OF q] fs dec
      unfolding eq by fastforce
  qed
qed


text \<open>What the action phase needs from the scan before it.\<close>

definition scan_found :: "('t, 'd) jobenv \<Rightarrow> context_t \<Rightarrow> config \<Rightarrow> bytes list \<Rightarrow> bool" where
  "scan_found E ctx cfg scanArgs \<longleftrightarrow>
     (let res = je_newCmd E (phaseContext ctx (PhaseTimeout cfg) (pc_ctx (je_scanClock E))) scanArgs [];
          content = concat (cr_stdout res) in
      cr_err res = None \<and>
      (case DecodeReport (report_fuel content) (je_jdec E) (je_NewDecoder E content) maxLoggedGroups of
         Inr rep \<Rightarrow> 0 < rp_TotalGroups rep | Inl _ \<Rightarrow> False))"

lemma run_phase_results:
  "run_phase E clk phaseCtx base argv stdin w = (runErr, dur, errBuf, outs, w') \<Longrightarrow>
     outs = cr_stdout (je_newCmd E phaseCtx argv stdin) \<and>
     (runErr = None \<longrightarrow> cr_err (je_newCmd E phaseCtx argv stdin) = None)"
  by (auto simp: run_phase_def Let_def run_error_def split: prod.splits option.splits write_err.splits)

lemma scan_steps:
  assumes "plain_base base"
  shows "\<exists>cs. let r = scan_with_report E ctx cfg scanArgs path base w in
      steps_to w (fst r) (scanArgs # cs) (snd r) \<and>
      action_cmds E ctx cfg cs \<and>
      (cs \<noteq> [] \<longrightarrow> Action cfg \<noteq> actionGroup \<and> scan_found E ctx cfg scanArgs)"
proof -
  define as where "as = [(''target'', VStr (ScanPath cfg)), (''binary'', VStr ''fclones''),
     (''args'', VArgs scanArgs), (''timeout'', VDur (PhaseTimeout cfg))]"
  let ?w1 = "wlog base Info ''scan starting'' as w"
  let ?ctx = "phaseContext ctx (PhaseTimeout cfg) (pc_ctx (je_scanClock E))"
  obtain re d b outs w2 where rp: "run_phase E (je_scanClock E) ?ctx base scanArgs [] ?w1
      = (re, d, b, outs, w2)" by (metis prod.exhaust)
  define w3 where "w3 = w2\<lparr>w_fs := (w_fs w2)(path := Some (concat outs))\<rparr>"
  define w4 where "w4 = (case je_closeTemp E of
      Some ce \<Rightarrow> wlog base Warn ''failed to close report temp file'' [(''error'', VErr (ErrSys ce))] w3
    | None \<Rightarrow> w3)"
  obtain dn pe w5 where cl: "classifyAndLogOutcome (je_unsafe E) ctx ?ctx (pc_samples (je_scanClock E)) base
      ''scan'' re (PhaseTimeout cfg) d b None [] w4 = ((dn, pe), w5)" by (metis prod.exhaust)
  have r: "scan_with_report E ctx cfg scanArgs path base w
      = (if dn then (pe, w5) else read_report E ctx cfg path base d w5)"
    unfolding scan_with_report_def Let_def as_def [symmetric] rp prod.case w3_def [symmetric]
      w4_def [symmetric] cl by simp
  have "steps_to w None [scanArgs] w2"
    using run_phase_steps [OF rp] by (rule steps_wlog [rotated]) simp
  then have "steps_to w None [scanArgs] w3" by (simp add: w3_def steps_to_def appends_def)
  moreover have "steps_to w3 None [] w4"
    by (auto simp: w4_def intro: steps_refl steps_ok split: option.splits)
  ultimately have s4: "steps_to w None [scanArgs] w4" using steps_quiet by fastforce
  note c = classify_steps [OF cl assms]
  show ?thesis
  proof (cases dn)
    case True
    then have "steps_to w pe [scanArgs] w5" using steps_quiet [OF s4] c by fastforce
    then show ?thesis by (intro exI [of _ "[]"]) (simp add: r True action_cmds_def Let_def)
  next
    case False
    then have w5: "w5 = w4" and ok: "re = None" using c by (auto simp: classifyExecOutcome_def split: prod.splits if_splits)
    have fs: "w_fs w5 path = Some (concat outs)" by (simp add: w5 w4_def w3_def split: option.split)
    obtain cs where cs: "steps_to w5 (fst (read_report E ctx cfg path base d w5)) cs (snd (read_report E ctx cfg path base d w5))"
      "action_cmds E ctx cfg cs"
      "cs \<noteq> [] \<longrightarrow> Action cfg \<noteq> actionGroup \<and> (\<exists>content rep. w_fs w5 path = Some content \<and>
         DecodeReport (report_fuel content) (je_jdec E) (je_NewDecoder E content) maxLoggedGroups = Inr rep \<and>
         0 < rp_TotalGroups rep)"
      using read_report_steps [OF assms] by blast
    have "cs \<noteq> [] \<longrightarrow> scan_found E ctx cfg scanArgs"
      using cs(3) run_phase_results [OF rp] ok by (auto simp: scan_found_def Let_def fs)
    moreover have "steps_to w (fst (read_report E ctx cfg path base d w5)) (scanArgs # cs)
        (snd (read_report E ctx cfg path base d w5))"
      using steps_quiet [OF s4, unfolded w5 [symmetric], OF cs(1)] by simp
    ultimately show ?thesis using cs(2,3) False by (intro exI [of _ cs]) (simp add: r Let_def)
  qed
qed

subsection \<open>What happens to the files\<close>

text \<open>A file that no process of the job, neither the scan nor the action, changes.\<close>

definition left_alone :: "('t, 'd) jobenv \<Rightarrow> config \<Rightarrow> bytes \<Rightarrow> bool" where
  "left_alone E cfg n \<longleftrightarrow>
     (\<forall>ctx argv stdin f. buildScanArgs cfg = Inr argv \<or> buildActionArgs cfg = Inr (Some argv) \<longrightarrow>
        cr_files (je_newCmd E ctx argv stdin) f n = f n)"

lemma run_phase_files:
  "run_phase E clk phaseCtx base argv stdin w = (runErr, dur, errBuf, outs, w') \<Longrightarrow>
     w_fs w' = cr_files (je_newCmd E phaseCtx argv stdin) (w_fs w)"
  by (auto simp: run_phase_def Let_def split: prod.splits if_splits)

lemma quiet_files [simp]:
  "w_fs (snd (classifyAndLogOutcome unsafe parent phaseCtx ts base phase re timeout dur se so extra w)) = w_fs w"
  "w_fs (snd (resolveActionSummary U base act s1 s2 w)) = w_fs w"
  "w_fs (snd (shouldRunAction base cfg has w)) = w_fs w"
  "w_fs (logDuplicateGroups base report w) = w_fs w"
  by (simp_all add: classifyAndLogOutcome_def resolveActionSummary_def shouldRunAction_def
      logDuplicateGroups_def Let_def split: phaseOutcome.split)

lemma finish_files: "w_fs (snd (finish_action E ctx actx cfg base (re, d, b, os, w))) = w_fs w"
proof -
  let ?stdout = "foldl buf_put (new_buffer streamCapBytes) os"
  obtain dn err w1 where c: "classifyAndLogOutcome (je_unsafe E) ctx actx (pc_samples (je_actionClock E)) base
      ''action'' re (PhaseTimeout cfg) d b (Some ?stdout)
      [(''action'', VStr (action_String (Action cfg)))] w = ((dn, err), w1)" by (metis prod.exhaust)
  obtain s w2 where r: "resolveActionSummary (je_unicode E) base (Action cfg) (buf_String b) (buf_String ?stdout) w1
      = (s, w2)" by fastforce
  have "w_fs w1 = w_fs w" "w_fs w2 = w_fs w1"
    using arg_cong [OF c, of "\<lambda>x. w_fs (snd x)"] arg_cong [OF r, of "\<lambda>x. w_fs (snd x)"] by simp_all
  then show ?thesis by (simp add: finish_action_def c r Let_def)
qed

lemma action_files:
  assumes "left_alone E cfg n"
  shows "w_fs (snd (runFclonesAction E ctx cfg path base w)) n = w_fs w n"
proof -
  have "w_fs (snd (finish_action E ctx actx cfg base (run_phase E clk actx base argv stdin w1))) n = w_fs w1 n"
    if "buildActionArgs cfg = Inr (Some argv)" for actx clk argv stdin w1
  proof -
    obtain re d b os w2 where rp: "run_phase E clk actx base argv stdin w1 = (re, d, b, os, w2)"
      by (metis prod.exhaust)
    show ?thesis using run_phase_files [OF rp] assms that by (simp add: rp finish_files left_alone_def)
  qed
  then show ?thesis by (auto simp: runFclonesAction_def Let_def split: sum.split option.split)
qed

lemma after_report_files:
  assumes "left_alone E cfg n"
  shows "w_fs (snd (after_report E ctx cfg path base d rep w)) n = w_fs w n"
proof -
  define w1 where "w1 = wlog base Info ''scan complete''
     [(''duration_s'', VInt (round_seconds d)),
      (''redundant_human'', VStr (HumanBytes (rs_RedundantFileSize (rp_Stats rep)))),
      (''groups'', VInt (rp_TotalGroups rep)),
      (''duplicate_files'', VInt (rp_TotalDuplicates rep)),
      (''duplicates_found'', VBool (0 < rp_TotalGroups rep))] w"
  define w2 where "w2 = (if 0 < rp_TotalGroups rep then logDuplicateGroups base rep w1 else w1)"
  obtain go w3 where s: "shouldRunAction base cfg (0 < rp_TotalGroups rep) w2 = (go, w3)" by fastforce
  have "w_fs w3 = w_fs w"
    using arg_cong [OF s, of "\<lambda>x. w_fs (snd x)"] by (simp add: w2_def w1_def split: if_splits)
  moreover have "after_report E ctx cfg path base d rep w
      = (if \<not> go then (None, w3) else runFclonesAction E ctx cfg path base w3)"
    unfolding after_report_def Let_def w1_def [symmetric] w2_def [symmetric] s by simp
  ultimately show ?thesis using action_files [OF assms] by simp
qed

lemma read_report_files:
  assumes "left_alone E cfg n"
  shows "w_fs (snd (read_report E ctx cfg path base d w)) n = w_fs w n"
  using after_report_files [OF assms, of ctx path base d]
  by (auto simp: read_report_def Let_def split: sum.split option.split)

text \<open>
  The files during the job: as the scan leaves them, with its output in the report, and then as the rest
  of the job, with the action if there is one, leaves them.
\<close>

lemma scan_files:
  assumes "buildScanArgs cfg = Inr scan"
    and "res = je_newCmd E (phaseContext ctx (PhaseTimeout cfg) (pc_ctx (je_scanClock E))) scan []"
    and "f = (cr_files res (w_fs w))(path := Some (concat (cr_stdout res)))"
  shows "left_alone E cfg n \<Longrightarrow> w_fs (snd (scan_with_report E ctx cfg scan path base w)) n = f n"
    and "left_alone E cfg n \<Longrightarrow> n \<noteq> path \<Longrightarrow> f n = w_fs w n"
proof -
  define as where "as = [(''target'', VStr (ScanPath cfg)), (''binary'', VStr ''fclones''),
     (''args'', VArgs scan), (''timeout'', VDur (PhaseTimeout cfg))]"
  let ?ctx = "phaseContext ctx (PhaseTimeout cfg) (pc_ctx (je_scanClock E))"
  obtain re d b outs w2 where rp: "run_phase E (je_scanClock E) ?ctx base scan []
      (wlog base Info ''scan starting'' as w) = (re, d, b, outs, w2)" by (metis prod.exhaust)
  define w4 where "w4 = (case je_closeTemp E of
      Some ce \<Rightarrow> wlog base Warn ''failed to close report temp file'' [(''error'', VErr (ErrSys ce))]
        (w2\<lparr>w_fs := (w_fs w2)(path := Some (concat outs))\<rparr>)
    | None \<Rightarrow> w2\<lparr>w_fs := (w_fs w2)(path := Some (concat outs))\<rparr>)"
  have w4: "w_fs w4 = f"
    using run_phase_files [OF rp] run_phase_results [OF rp] assms(2,3) by (simp add: w4_def split: option.split)
  obtain dn pe w5 where cl: "classifyAndLogOutcome (je_unsafe E) ctx ?ctx (pc_samples (je_scanClock E)) base
      ''scan'' re (PhaseTimeout cfg) d b None [] w4 = ((dn, pe), w5)" by (metis prod.exhaust)
  have "w_fs w5 = f" using arg_cong [OF cl, of "\<lambda>x. w_fs (snd x)"] w4 by simp
  moreover have "scan_with_report E ctx cfg scan path base w
      = (if dn then (pe, w5) else read_report E ctx cfg path base d w5)"
    unfolding scan_with_report_def Let_def as_def [symmetric] rp prod.case w4_def [symmetric] cl by simp
  ultimately show "left_alone E cfg n \<Longrightarrow> w_fs (snd (scan_with_report E ctx cfg scan path base w)) n = f n"
    using read_report_files [of E cfg n ctx path base d w5] by simp
  show "left_alone E cfg n \<Longrightarrow> n \<noteq> path \<Longrightarrow> f n = w_fs w n"
    using assms(1) by (auto simp: assms(2,3) left_alone_def)
qed

subsection \<open>The job as a whole\<close>

text \<open>The commands of a job: none, the scan, or the scan and its action.\<close>

definition job_cmds :: "('t, 'd) jobenv \<Rightarrow> context_t \<Rightarrow> config \<Rightarrow> bytes list list \<Rightarrow> bool" where
  "job_cmds E ctx cfg cs \<longleftrightarrow>
     (case cs of
        [] \<Rightarrow> True
      | scan # rest \<Rightarrow> buildScanArgs cfg = Inr scan \<and> action_cmds E ctx cfg rest \<and>
          (rest = [] \<or> Action cfg \<noteq> actionGroup \<and> scan_found E ctx cfg scan))"

lemma locked_steps:
  "\<exists>ls cs. let r = locked_job E ctx cfg trig w in
     w_log (snd r) = w_log w @ ls \<and> tagged_once (fst r) ls \<and> w_cmds (snd r) = w_cmds w @ cs \<and>
     job_cmds E ctx cfg cs \<and> w_locked (snd r) = w_locked w"
proof -
  let ?base = "[(''scan_id'', VStr (newScanID (je_rand E))), (''trigger'', VStr trig)]"
  have pb: "plain_base ?base" by (simp add: plain_base_def)
  have fail: "\<exists>ls. w_log (wlog ?base Error m as w) = w_log w @ ls \<and> tagged_once (Some e) ls"
    if "steps_to w (Some e) [] (wlog ?base Error m as w)" for m as e
    using that by (auto simp: steps_to_def appends_def)
  show ?thesis
  proof (cases "buildScanArgs cfg")
    case (Inl e)
    then show ?thesis
      using fail [OF steps_fail(2) [OF pb fail_tags_in(2)]]
      by (simp add: locked_job_def job_cmds_def Let_def)
  next
    case sa: (Inr scanArgs)
    show ?thesis
    proof (cases "je_CreateTemp E")
      case (Inl e)
      then show ?thesis
        using sa fail [OF steps_fail(2) [OF pb fail_tags_in(2)]]
        by (simp add: locked_job_def job_cmds_def Let_def)
    next
      case tp: (Inr path)
      let ?w0 = "w\<lparr>w_fs := (w_fs w)(path := Some [])\<rparr>"
      obtain err w1 where r: "scan_with_report E ctx cfg scanArgs path ?base ?w0 = (err, w1)" by fastforce
      obtain cs where s: "steps_to ?w0 err (scanArgs # cs) w1"
        and c: "action_cmds E ctx cfg cs" "cs \<noteq> [] \<longrightarrow> Action cfg \<noteq> actionGroup \<and> scan_found E ctx cfg scanArgs"
        using scan_steps [OF pb, of E ctx cfg scanArgs path ?w0] r by auto
      obtain ls where ls: "w_log w1 = w_log w @ ls" "tagged_once err ls" "w_cmds w1 = w_cmds w @ scanArgs # cs"
        "w_locked w1 = w_locked w"
        using s by (auto simp: steps_to_def appends_def)
      have j: "job_cmds E ctx cfg (scanArgs # cs)" using c sa by (auto simp: job_cmds_def)
      have eq: "locked_job E ctx cfg trig w
          = (err, if je_removeFails E then w1 else w1\<lparr>w_fs := (w_fs w1)(path := None)\<rparr>)"
        using r by (simp add: locked_job_def sa tp Let_def)
      show ?thesis
        unfolding eq Let_def using ls j by (intro exI [of _ ls] exI [of _ "scanArgs # cs"]) auto
    qed
  qed
qed

lemma job_steps:
  "\<exists>ls cs. let r = runFclonesJob E ctx cfg trig w in
     w_log (snd r) = w_log w @ ls \<and> tagged_once (snd (fst r)) ls \<and> w_cmds (snd r) = w_cmds w @ cs \<and>
     job_cmds E ctx cfg cs \<and> (je_TryLock E \<noteq> Inr True \<longrightarrow> cs = []) \<and>
     (fst (fst r) \<longleftrightarrow> je_TryLock E \<noteq> Inr False) \<and>
     w_locked (snd r) = (if je_TryLock E = Inr True then False else w_locked w)"
proof -
  consider e where "je_TryLock E = Inl e" | "je_TryLock E = Inr False" | "je_TryLock E = Inr True"
    by (cases "je_TryLock E") auto
  then show ?thesis
  proof cases
    case 1
    have "plain_base []" by (simp add: plain_base_def)
    then have "steps_to w (Some (ErrSys e)) [] (wlog [] Error ''cannot acquire scan lock''
        [(''trigger'', VStr trig), outcome_tag ''lock_error'', (''path'', VStr lockFile), (''error'', VErr (ErrSys e))] w)"
      by (rule steps_fail) simp_all
    with 1 show ?thesis
      by (auto simp: runFclonesJob_def job_cmds_def steps_to_def appends_def Let_def)
  next
    case 2
    then show ?thesis by (auto simp: runFclonesJob_def job_cmds_def Let_def)
  next
    case 3
    obtain err w1 where r: "locked_job E ctx cfg trig (w\<lparr>w_locked := True\<rparr>) = (err, w1)" by fastforce
    then show ?thesis
      using locked_steps [of E ctx cfg trig "w\<lparr>w_locked := True\<rparr>"] 3
      by (auto simp: runFclonesJob_def Let_def)
  qed
qed

text \<open>
  C2. What a job may run. Without the lock: nothing. With it, at most two commands: the scan the
  configuration builds, and after it the configured action, which is never run for a report-only
  configuration, never unless the scan itself succeeded and its report decoded with at least one
  duplicate group, and never once the context is done.
\<close>

theorem job_commands:
  "\<exists>cs. w_cmds (snd (runFclonesJob E ctx cfg trig w)) = w_cmds w @ cs \<and>
     (cs = [] \<or> je_TryLock E = Inr True \<and>
        (\<exists>scan. buildScanArgs cfg = Inr scan \<and>
          (cs = [scan] \<or>
           (\<exists>act. cs = [scan, act] \<and> buildActionArgs cfg = Inr (Some act) \<and> Action cfg \<noteq> actionGroup \<and>
              ctx_Err ctx (je_actionCheck E) = None \<and> scan_found E ctx cfg scan))))"
proof -
  obtain ls cs where "w_cmds (snd (runFclonesJob E ctx cfg trig w)) = w_cmds w @ cs"
    and j: "job_cmds E ctx cfg cs" "je_TryLock E \<noteq> Inr True \<longrightarrow> cs = []"
    using job_steps [of E ctx cfg trig w] by (auto simp: Let_def)
  moreover have "cs = [] \<or> je_TryLock E = Inr True \<and>
        (\<exists>scan. buildScanArgs cfg = Inr scan \<and>
          (cs = [scan] \<or>
           (\<exists>act. cs = [scan, act] \<and> buildActionArgs cfg = Inr (Some act) \<and> Action cfg \<noteq> actionGroup \<and>
              ctx_Err ctx (je_actionCheck E) = None \<and> scan_found E ctx cfg scan)))"
    using j by (cases cs) (auto simp: job_cmds_def action_cmds_def)
  ultimately show ?thesis by blast
qed

text \<open>
  The names under which a job creates its report: none without the lock, none when the command of the
  scan cannot be built, and otherwise the one \<open>os.CreateTemp\<close> gives.
\<close>

definition report_of :: "('t, 'd) jobenv \<Rightarrow> config \<Rightarrow> bytes \<Rightarrow> bool" where
  "report_of E cfg n \<longleftrightarrow>
     je_TryLock E = Inr True \<and> (\<exists>scan. buildScanArgs cfg = Inr scan) \<and> je_CreateTemp E = Inr n"

text \<open>What the scan of a job writes to its stdout.\<close>

definition scan_output :: "('t, 'd) jobenv \<Rightarrow> context_t \<Rightarrow> config \<Rightarrow> bytes" where
  "scan_output E ctx cfg =
     (case buildScanArgs cfg of
        Inl _ \<Rightarrow> []
      | Inr scan \<Rightarrow> concat (cr_stdout (je_newCmd E
          (phaseContext ctx (PhaseTimeout cfg) (pc_ctx (je_scanClock E))) scan [])))"

lemma no_report_files:
  "\<not> (\<exists>n. report_of E cfg n) \<Longrightarrow> w_fs (snd (runFclonesJob E ctx cfg trig w)) = w_fs w"
proof -
  assume none: "\<not> (\<exists>n. report_of E cfg n)"
  show ?thesis
  proof (cases "je_TryLock E = Inr True")
    case True
    with none have "(\<exists>e. buildScanArgs cfg = Inl e) \<or> (\<exists>e. je_CreateTemp E = Inl e)"
      unfolding report_of_def by (metis sum.exhaust)
    then have "w_fs (snd (locked_job E ctx cfg trig w1)) = w_fs w1" for w1
      by (cases "buildScanArgs cfg") (auto simp: locked_job_def Let_def)
    then have "w_fs (snd (locked_job E ctx cfg trig (w\<lparr>w_locked := True\<rparr>))) = w_fs w" by simp
    then show ?thesis using True by (auto simp: runFclonesJob_def split: prod.split)
  next
    case False
    then show ?thesis by (auto simp: runFclonesJob_def split: sum.split)
  qed
qed

text \<open>
  With a report, the files are at first those from before and the empty report, at the end of the scan
  \<open>f\<close>, before the removal \<open>g\<close>.
\<close>

lemma job_files:
  assumes "report_of E cfg path"
  shows "\<exists>f g. f path = Some (scan_output E ctx cfg) \<and>
    (\<forall>n. left_alone E cfg n \<longrightarrow> g n = f n \<and> (n \<noteq> path \<longrightarrow> f n = w_fs w n)) \<and>
    w_fs (snd (runFclonesJob E ctx cfg trig w)) = (if je_removeFails E then g else g(path := None))"
proof -
  obtain scan where a: "je_TryLock E = Inr True" "buildScanArgs cfg = Inr scan" "je_CreateTemp E = Inr path"
    using assms by (auto simp: report_of_def)
  let ?base = "[(''scan_id'', VStr (newScanID (je_rand E))), (''trigger'', VStr trig)]"
  let ?w0 = "w\<lparr>w_locked := True, w_fs := (w_fs w)(path := Some [])\<rparr>"
  obtain err w1 where s: "scan_with_report E ctx cfg scan path ?base ?w0 = (err, w1)" by fastforce
  define res where "res = je_newCmd E (phaseContext ctx (PhaseTimeout cfg) (pc_ctx (je_scanClock E))) scan []"
  define f where "f = (cr_files res (w_fs ?w0))(path := Some (concat (cr_stdout res)))"
  note sf = scan_files [OF a(2) res_def f_def]
  have "f path = Some (scan_output E ctx cfg)" by (simp add: f_def scan_output_def a(2) res_def)
  moreover have "left_alone E cfg n \<Longrightarrow> w_fs w1 n = f n" for n using sf(1) [of n ?base] s by simp
  moreover have "left_alone E cfg n \<Longrightarrow> n \<noteq> path \<Longrightarrow> f n = w_fs w n" for n using sf(2) [of n] by simp
  moreover have "w_fs (snd (runFclonesJob E ctx cfg trig w))
      = (if je_removeFails E then w_fs w1 else (w_fs w1)(path := None))"
    using s by (simp add: runFclonesJob_def locked_job_def a Let_def)
  ultimately show ?thesis by blast
qed

text \<open>
  C4. A job cleans up after itself on every path. When it returns, the lock it took is released. Its
  report is gone if the removal did not fail; if the removal failed and no process touched the report,
  it still holds the output of the scan. Every other file that neither the scan nor the action changes
  is as before, and without a report every file is. It says \<open>ran = false\<close> exactly when the lock
  was held elsewhere.
\<close>

theorem job_cleans_up:
  "w_locked (snd (runFclonesJob E ctx cfg trig w)) = (je_TryLock E \<noteq> Inr True \<and> w_locked w) \<and>
   (fst (fst (runFclonesJob E ctx cfg trig w)) \<longleftrightarrow> je_TryLock E \<noteq> Inr False) \<and>
   (report_of E cfg n \<longrightarrow> \<not> je_removeFails E \<longrightarrow> w_fs (snd (runFclonesJob E ctx cfg trig w)) n = None) \<and>
   (report_of E cfg n \<longrightarrow> je_removeFails E \<longrightarrow> left_alone E cfg n \<longrightarrow>
      w_fs (snd (runFclonesJob E ctx cfg trig w)) n = Some (scan_output E ctx cfg)) \<and>
   (\<not> report_of E cfg n \<longrightarrow> left_alone E cfg n \<longrightarrow> w_fs (snd (runFclonesJob E ctx cfg trig w)) n = w_fs w n) \<and>
   ((\<forall>p. \<not> report_of E cfg p) \<longrightarrow> w_fs (snd (runFclonesJob E ctx cfg trig w)) = w_fs w)"
proof -
  have lock: "w_locked (snd (runFclonesJob E ctx cfg trig w)) = (je_TryLock E \<noteq> Inr True \<and> w_locked w)"
    "fst (fst (runFclonesJob E ctx cfg trig w)) \<longleftrightarrow> je_TryLock E \<noteq> Inr False"
    using job_steps [of E ctx cfg trig w] by (auto simp: Let_def split: if_splits)
  show ?thesis
  proof (cases "\<exists>p. report_of E cfg p")
    case True
    then obtain p where p: "report_of E cfg p" ..
    then have one: "report_of E cfg n \<longleftrightarrow> n = p" by (auto simp: report_of_def)
    obtain f g where "f p = Some (scan_output E ctx cfg)"
      "\<forall>n. left_alone E cfg n \<longrightarrow> g n = f n \<and> (n \<noteq> p \<longrightarrow> f n = w_fs w n)"
      "w_fs (snd (runFclonesJob E ctx cfg trig w)) = (if je_removeFails E then g else g(p := None))"
      using job_files [OF p] by blast
    then show ?thesis unfolding lock one using p by auto
  next
    case False
    then show ?thesis unfolding no_report_files [OF False] lock by blast
  qed
qed

text \<open>
  C5. Every failed run is logged exactly once: a job that returns an error has written one error line,
  carrying one of the failure tags as its \<open>outcome\<close>; a job that returns none (success, lock skip,
  shutdown) has written no error line.
\<close>

theorem job_logs_once:
  "\<exists>ls. w_log (snd (runFclonesJob E ctx cfg trig w)) = w_log w @ ls \<and>
     (case snd (fst (runFclonesJob E ctx cfg trig w)) of
        None \<Rightarrow> at_level Error ls = []
      | Some _ \<Rightarrow> (\<exists>l tag. at_level Error ls = [l] \<and> attr l ''outcome'' = Some (VStr tag) \<and>
                   tag \<in> set fail_tags))"
  using job_steps [of E ctx cfg trig w] by (auto simp: Let_def tagged_once_def)

subsection \<open>The commands of an accepted configuration\<close>

lemma accepted_args:
  assumes "snd (loadConfig E) = Inr cfg"
  shows "\<exists>p a b. Parse (ScanPath cfg) = Inr p \<and> Parse (cfgArgs cfg) = Inr a \<and> Parse (ActionArgs cfg) = Inr b \<and>
    none_owned (unicode E) a \<and> only_flag_values a \<and> only_flag_values b \<and>
    (unsafe_allowed E \<or> none_dangerous (unicode E) (p @ a @ b))"
proof -
  have "args_accepted E (cfgArgs cfg) (ActionArgs cfg) (ScanPath cfg)"
    using assms by (simp add: load_iff split: sum.splits)
  then show ?thesis
    by (auto simp: args_accepted_def split: sum.splits if_splits)
qed

lemma Parse_Nil: "Parse [] = Inr []"
  using Parse_words [of "[]"] by simp

lemma accepted_builds:
  assumes "snd (loadConfig E) = Inr cfg"
  shows "\<exists>p a b. buildScanArgs cfg = Inr ([''group''] @ p @ a @ [''--cache'', ''-f'', ''json'']) \<and>
    buildActionArgs cfg = Inr (if Action cfg = actionGroup then None
                               else Some (action_String (Action cfg) # b)) \<and>
    Parse (ScanPath cfg) = Inr p \<and> none_owned (unicode E) a \<and> only_flag_values a \<and> only_flag_values b \<and>
    (unsafe_allowed E \<or> none_dangerous (unicode E) (p @ a @ b))"
proof -
  obtain p a b where *: "Parse (ScanPath cfg) = Inr p" "Parse (cfgArgs cfg) = Inr a"
    "Parse (ActionArgs cfg) = Inr b" "none_owned (unicode E) a" "only_flag_values a" "only_flag_values b"
    "unsafe_allowed E \<or> none_dangerous (unicode E) (p @ a @ b)"
    using accepted_args [OF assms] by blast
  have "(if cfgArgs cfg \<noteq> [] then map_err f (Parse (cfgArgs cfg)) else Inr []) = Inr a"
    "(if ActionArgs cfg \<noteq> [] then map_err f (Parse (ActionArgs cfg)) else Inr []) = Inr b"
    for f :: "args_error \<Rightarrow> goerr"
    using *(2,3) by (auto simp: Parse_Nil)
  then have "buildScanArgs cfg = Inr ([''group''] @ p @ a @ [''--cache'', ''-f'', ''json''])"
    "buildActionArgs cfg = Inr (if Action cfg = actionGroup then None
                               else Some (action_String (Action cfg) # b))"
    using *(1) by (simp_all add: buildScanArgs_def buildActionArgs_def)
  then show ?thesis using * by blast
qed

text \<open>
  A configuration that startup accepts always builds its commands, so no scan of it fails on
  argument syntax. The scan is \<open>group\<close>, the scan paths, the user's flags, then the wrapper's own
  \<open>--cache -f json\<close>; the user's flags name none of these; no bare token among the flag values stands
  without a flag before it; and unless the guardrail is off, no token anywhere is a dangerous flag.
\<close>

theorem accepted_commands:
  assumes "snd (loadConfig E) = Inr cfg"
  shows "\<exists>p a b. buildScanArgs cfg = Inr ([''group''] @ p @ a @ [''--cache'', ''-f'', ''json'']) \<and>
    buildActionArgs cfg = Inr (if Action cfg = actionGroup then None
                               else Some (action_String (Action cfg) # b)) \<and>
    Parse (ScanPath cfg) = Inr p \<and> none_owned (unicode E) a \<and> only_flag_values a \<and> only_flag_values b \<and>
    (unsafe_allowed E \<or> none_dangerous (unicode E) (p @ a @ b))"
  using assms by (rule accepted_builds)

theorem accepted_commands_witness:
  "\<exists>cfg p a. snd (loadConfig demo_env) = Inr cfg \<and>
     buildScanArgs cfg = Inr ([''group''] @ p @ a @ [''--cache'', ''-f'', ''json'']) \<and>
     buildActionArgs cfg = Inr None"
  using accepted_commands [OF demo_loads] demo_loads by fastforce

text \<open>
  The flags the wrapper owns are only kept out of \<open>FCLONES_ARGS\<close>: a scan-path value may carry them,
  and they then precede the wrapper's own in the command of the scan.
\<close>

theorem scan_path_gap:
  assumes "\<And>k. env_String E k = (if k = ''FCLONES_SCAN_PATHS'' then ''/scandir --format csv'' else [])"
    and "env_DurationStrict E ''SCAN_TIMEOUT'' = Inr None"
  shows "\<exists>cfg. snd (loadConfig E) = Inr cfg \<and>
    buildScanArgs cfg = Inr [''group'', ''/scandir'', ''--format'', ''csv'', ''--cache'', ''-f'', ''json'']"
proof -
  have p: "Parse ''/scandir --format csv'' = Inr [''/scandir'', ''--format'', ''csv'']"
    using Parse_words [of "[''/scandir'', ''--format'', ''csv'']"]
    by (simp add: plain_token_def plain_rune_def ascii_simps)
  have l: "to_lower U s = s" if "s \<in> {''/scandir'', ''--format'', ''csv''}" for U s
    using that by (auto simp: to_lower_id lower_ascii_def ascii_simps)
  define cfg where "cfg = \<lparr>ScanPath = ''/scandir --format csv'', cfgArgs = [], Action = actionGroup, ActionArgs = [],
    Interval = fst (parseInterval E (env_Getenv E ''SCAN_INTERVAL'')), PhaseTimeout = 12 * hour,
    Mode = snd (parseInterval E (env_Getenv E ''SCAN_INTERVAL''))\<rparr>"
  have "args_accepted E [] [] ''/scandir --format csv''"
    by (simp add: args_accepted_def p Parse_Nil none_owned_def none_dangerous_def dangerous_def l is_flag_def
        dangerousFlags_def only_flag_values_def)
  then have "snd (loadConfig E) = Inr cfg"
    by (simp add: load_iff assms cmp_Or_def parseAction_def validActions_def cfg_def)
  moreover have "buildScanArgs cfg = Inr [''group'', ''/scandir'', ''--format'', ''csv'', ''--cache'', ''-f'', ''json'']"
    by (simp add: cfg_def buildScanArgs_def p)
  ultimately show ?thesis by blast
qed

theorem scan_path_gap_witness:
  "\<exists>cfg. snd (loadConfig (demo_env\<lparr>env_String := (\<lambda>k. if k = ''FCLONES_SCAN_PATHS'' then ''/scandir --format csv'' else [])\<rparr>))
     = Inr cfg \<and> buildScanArgs cfg = Inr [''group'', ''/scandir'', ''--format'', ''csv'', ''--cache'', ''-f'', ''json'']"
  by (rule scan_path_gap) (simp_all add: demo_env_def)

subsection \<open>The duplicate lines\<close>

definition pair_line :: "nat \<times> DuplicateGroup \<times> bytes \<Rightarrow> logline" where
  "pair_line p = (case p of (i, g, dup) \<Rightarrow> logl Info ''duplicate file''
     [(''group'', VInt (int i + 1)), (''keeper'', VStr (dg_Keeper g)),
      (''duplicate'', VStr dup), (''size'', VStr (dg_SizePerDup g))])"

definition pair_cost :: "nat \<times> DuplicateGroup \<times> bytes \<Rightarrow> int" where
  "pair_cost p = (case p of (i, g, dup) \<Rightarrow> int (length (dg_Keeper g)) + int (length dup))"

definition cost :: "(nat \<times> DuplicateGroup \<times> bytes) list \<Rightarrow> int" where
  "cost ps = sum_list (map pair_cost ps)"

text \<open>All pairs of the retained groups in document order, each with the index of its group.\<close>

fun all_pairs :: "nat \<Rightarrow> DuplicateGroup list \<Rightarrow> (nat \<times> DuplicateGroup \<times> bytes) list" where
  "all_pairs i [] = []"
| "all_pairs i (g # gs) = map (\<lambda>d. (i, g, d)) (dg_Duplicates g) @ all_pairs (i + 1) gs"

text \<open>The two loops as one over the pairs.\<close>

fun pair_loop ::
  "(nat \<times> DuplicateGroup \<times> bytes) list \<Rightarrow> int \<times> int \<times> logline list \<Rightarrow> bool \<times> int \<times> int \<times> logline list" where
  "pair_loop [] st = (False, st)"
| "pair_loop (p # ps) (n, b, ls) =
     (if maxLoggedPairs \<le> n then (True, n, b, ls)
      else if logDetailCapBytes < b + pair_cost p
      then (True, n, b + pair_cost p, ls @ [logl Info ''duplicate detail truncated, byte cap reached''
              [(''logged_pairs'', VInt n), (''cap_bytes'', VInt logDetailCapBytes)]])
      else pair_loop ps (n + 1, b + pair_cost p, ls @ [pair_line p]))"

lemma dup_loop_pairs: "dup_loop i g dups st = pair_loop (map (\<lambda>d. (i, g, d)) dups) st"
proof (induction dups arbitrary: st)
  case (Cons d dups)
  obtain n b ls where "st = (n, b, ls)" by (metis prod.exhaust)
  with Cons show ?case by (simp add: pair_cost_def pair_line_def Let_def add.assoc)
qed simp

lemma pair_loop_append:
  "pair_loop (ps @ qs) st =
     (case pair_loop ps st of (broke, st') \<Rightarrow> if broke then (True, st') else pair_loop qs st')"
proof (induction ps arbitrary: st)
  case (Cons p ps)
  obtain n b ls where "st = (n, b, ls)" by (metis prod.exhaust)
  with Cons show ?case by simp
qed simp

lemma dup_groups_pairs: "dup_groups i gs st = snd (pair_loop (all_pairs i gs) st)"
proof (induction gs arbitrary: i st)
  case (Cons g gs)
  then show ?case
    by (auto simp: dup_loop_pairs pair_loop_append split: prod.splits)
qed simp

lemma pair_cost_nonneg: "0 \<le> pair_cost p"
  by (simp add: pair_cost_def split: prod.splits)

lemma pair_loop_spec:
  assumes "pair_loop ps (n, b, ls) = (broke, n', b', ls')" and "n \<le> 500" and "b \<le> logDetailCapBytes"
  shows "\<exists>k tail. k \<le> length ps \<and> n' = n + int k \<and> n' \<le> 500 \<and> b + cost (take k ps) \<le> logDetailCapBytes \<and>
    ls' = ls @ map pair_line (take k ps) @ tail \<and> length tail \<le> 1 \<and>
    (k < length ps \<longrightarrow> n' = 500 \<or> logDetailCapBytes < b + cost (take (Suc k) ps))"
  using assms
proof (induction ps arbitrary: n b ls)
  case Nil
  then show ?case by (intro exI [of _ 0] exI [of _ "[]"]) (auto simp: cost_def)
next
  case (Cons p ps)
  consider "500 \<le> n" | "n < 500" "logDetailCapBytes < b + pair_cost p"
    | "n < 500" "b + pair_cost p \<le> logDetailCapBytes" by linarith
  then show ?case
  proof cases
    case 1
    with Cons.prems show ?thesis
      by (intro exI [of _ 0] exI [of _ "[]"]) (simp add: maxLoggedPairs_def cost_def)
  next
    case 2
    with Cons.prems show ?thesis
      by (intro exI [of _ 0]) (auto simp: maxLoggedPairs_def cost_def)
  next
    case 3
    then have "pair_loop ps (n + 1, b + pair_cost p, ls @ [pair_line p]) = (broke, n', b', ls')"
      using Cons.prems(1) by (simp add: maxLoggedPairs_def)
    with Cons.IH [OF this] 3 obtain k tail where "k \<le> length ps" "n' = n + 1 + int k" "n' \<le> 500"
      "b + pair_cost p + cost (take k ps) \<le> logDetailCapBytes"
      "ls' = (ls @ [pair_line p]) @ map pair_line (take k ps) @ tail" "length tail \<le> 1"
      "k < length ps \<longrightarrow> n' = 500 \<or> logDetailCapBytes < b + pair_cost p + cost (take (Suc k) ps)" by auto
    then show ?thesis
      by (intro exI [of _ "Suc k"] exI [of _ tail]) (auto simp: cost_def)
  qed
qed

text \<open>
  C36. The duplicate detail is a bounded prefix. Whatever the report holds, the lines written are those of
  the first \<open>k\<close> pairs in document order and at most two more; \<open>k\<close> is at most 500 and the paths in
  them take at most 64 KiB; it stops early only for one of these caps; and when fewer pairs than the
  document's total were logged, a line says so.
\<close>

theorem duplicate_lines_bounded:
  "\<exists>k tail. duplicate_lines r = map pair_line (take k (all_pairs 0 (rp_Groups r))) @ tail \<and>
     k \<le> length (all_pairs 0 (rp_Groups r)) \<and> k \<le> 500 \<and> length tail \<le> 2 \<and>
     cost (take k (all_pairs 0 (rp_Groups r))) \<le> 64 * 1024 \<and>
     (k = length (all_pairs 0 (rp_Groups r)) \<or> k = 500 \<or>
      64 * 1024 < cost (take (Suc k) (all_pairs 0 (rp_Groups r)))) \<and>
     (list_ex (\<lambda>l. l_msg l = ''duplicate pairs truncated'') tail \<or> rp_TotalDuplicates r \<le> int k)"
proof -
  let ?ps = "all_pairs 0 (rp_Groups r)"
  obtain broke n b ls where pl: "pair_loop ?ps (0, 0, []) = (broke, n, b, ls)" by (metis prod.exhaust)
  obtain k tail where k: "k \<le> length ?ps" "n = int k" "n \<le> 500" "cost (take k ?ps) \<le> logDetailCapBytes"
    "ls = map pair_line (take k ?ps) @ tail" "length tail \<le> 1"
    "k < length ?ps \<longrightarrow> n = 500 \<or> logDetailCapBytes < cost (take (Suc k) ?ps)"
    using pair_loop_spec [OF pl] by (auto simp: logDetailCapBytes_def)
  define end_line where "end_line = (if n < rp_TotalDuplicates r
    then [logl Info ''duplicate pairs truncated'' [(''logged_pairs'', VInt n),
       (''total_pairs'', VInt (rp_TotalDuplicates r)), (''logged_groups'', VInt (int (length (rp_Groups r)))),
       (''total_groups'', VInt (rp_TotalGroups r))]] else [])"
  have dl: "duplicate_lines r = map pair_line (take k ?ps) @ (tail @ end_line)"
    by (simp add: duplicate_lines_def dup_groups_pairs pl k(5) end_line_def)
  show ?thesis
    by (rule exI [of _ k], rule exI [of _ "tail @ end_line"])
      (use dl k in \<open>auto simp: logDetailCapBytes_def end_line_def\<close>)
qed

subsection \<open>The captured streams\<close>

text \<open>The terminal filter and the capture buffer under one \<open>io.MultiWriter\<close>.\<close>

interpretation stream_tee: tee "lf_Write unsafe wr" buf_Write for unsafe wr
  by unfold_locales

lemma lf_Write_fst: "fst (lf_Write unsafe wr fw p) = length p"
  by (simp add: lf_Write_def split: prod.splits)

lemma buf_Write_ok: "fst (snd (buf_Write b p)) = None" "snd (snd (buf_Write b p)) = buf_put b p"
  by (simp_all add: buf_Write_def buf_put_def Let_def)

lemma emit_sink_ok: "\<forall>t x. fst (wr t x) = None \<Longrightarrow> fst (emit unsafe wr fw l) = None"
  by (simp add: emit_def split: prod.splits) (metis fst_conv)

lemma write_loop_sink_ok: "\<forall>t x. fst (wr t x) = None \<Longrightarrow> fst (write_loop unsafe wr fw buf) = None"
proof (induction unsafe wr fw buf rule: write_loop.induct)
  case (1 unsafe wr fw buf)
  show ?case
  proof (cases "str_index buf [nl]")
    case None
    then show ?thesis using emit_sink_ok [OF "1.prems", of unsafe]
      by (subst write_loop.simps) (auto simp: Let_def split: prod.splits, metis fst_conv)
  next
    case (Some idx)
    obtain e fw1 where e: "emit unsafe wr fw (take (idx + 1) buf) = (e, fw1)" by fastforce
    then have "e = None" using emit_sink_ok [OF "1.prems", of unsafe fw "take (idx + 1) buf"] by simp
    then show ?thesis
      using "1.IH" [OF Some e [symmetric]] "1.prems" e Some
      by (subst write_loop.simps) simp
  qed
qed

lemma copy_stderr_ok:
  assumes "\<forall>t x. fst (wr t x) = None"
  shows "copy_stderr unsafe wr ps (fw, b) = (None, foldl (lf_put unsafe wr) fw ps, foldl buf_put b ps)"
proof (induction ps arbitrary: fw b)
  case (Cons p ps)
  have "fst (snd (lf_Write unsafe wr fw p)) = None"
    using write_loop_sink_ok [OF assms, of unsafe] by (simp add: lf_Write_def Let_def split: prod.splits)
  then have "multi_write (lf_Write unsafe wr) buf_Write (fw, b) p
      = (length p, None, lf_put unsafe wr fw p, buf_put b p)"
    using stream_tee.tee_ok [of unsafe wr fw p b] by (simp add: buf_Write_ok lf_put_def)
  then show ?case using Cons by simp
qed simp

lemma copy_stderr_never_short: "fst (copy_stderr unsafe wr ps vw) \<noteq> Some ErrShortWrite"
proof (induction ps arbitrary: vw)
  case (Cons p ps)
  obtain n e vw' where m: "multi_write (lf_Write unsafe wr) buf_Write vw p = (n, e, vw')"
    by (metis prod.exhaust)
  then have "e \<noteq> Some ErrShortWrite" using stream_tee.never_short [of unsafe wr vw p] by simp
  with m Cons show ?case by (cases e) simp_all
qed simp

lemma take_all_cap: "take 1048576 xs \<noteq> xs \<longleftrightarrow> 1048576 < int (length xs)" for xs :: bytes
  by (metis int_ops(3) nat_int nat_less_iff not_le of_nat_less_iff of_nat_numeral take_all_iff)

lemma phase_captured:
  assumes "\<forall>t x. fst (je_wr E t x) = None"
    and "run_phase E clk phaseCtx base argv stdin w = (runErr, dur, stderr, outs, w')"
    and "res = je_newCmd E phaseCtx argv stdin"
  shows "runErr = cr_err res \<and> outs = cr_stdout res \<and> dur = cr_end res - pc_start clk \<and>
    buf_String stderr = take 1048576 (concat (cr_stderr res)) \<and>
    buf_Total stderr = int (length (concat (cr_stderr res))) \<and>
    buf_Truncated stderr = (buf_String stderr \<noteq> concat (cr_stderr res))"
proof -
  have "captures streamCapBytes (concat (cr_stderr res)) (foldl buf_put (new_buffer streamCapBytes) (cr_stderr res))"
    using captures_run [OF captures_new, of streamCapBytes] by simp
  then show ?thesis
    using assms(2) take_all_cap [of "concat (cr_stderr res)"]
    by (auto simp: run_phase_def copy_stderr_ok [OF assms(1)] Let_def run_error_def captures_def assms(3)
        streamCapBytes_def buf_String_def buf_Total_def buf_Truncated_def split: prod.splits option.splits)
qed

lemma flush_floods: "lf_Floods (snd (lf_Flush unsafe wr fw)) = lf_Floods fw"
  by (simp add: lf_Flush_def lf_Floods_def emit_def Let_def split: prod.splits)

lemma phase_shown:
  assumes "\<forall>t x. fst (je_wr E t x) = None"
    and "run_phase E clk phaseCtx base argv stdin w = (runErr, dur, stderr, outs, w')"
    and "all = concat (cr_stderr (je_newCmd E phaseCtx argv stdin))"
  shows "w_log w' = w_log w \<Longrightarrow>
      w_term w' = foldl (\<lambda>t l. snd (je_wr E t l)) (w_term w) (shown_lines (je_unsafe E) all)"
    and "lines_fit all \<Longrightarrow> w_log w' = w_log w"
proof -
  let ?ps = "cr_stderr (je_newCmd E phaseCtx argv stdin)"
  let ?fw = "foldl (lf_put (je_unsafe E) (je_wr E)) (New (w_term w)) ?ps"
  obtain fe fw where fl: "lf_Flush (je_unsafe E) (je_wr E) ?fw = (fe, fw)" by fastforce
  then have n: "lf_Floods fw = lf_Floods ?fw" using flush_floods by (metis snd_conv)
  have w': "w_term w' = lw_w fw" "w_log w' = w_log w \<longleftrightarrow> lf_Floods fw = 0"
    using assms(2) by (auto simp: run_phase_def Let_def copy_stderr_ok [OF assms(1)] fl split: if_splits)
  show "w_term w' = foldl (\<lambda>t l. snd (je_wr E t l)) (w_term w) (shown_lines (je_unsafe E) all)"
    if "w_log w' = w_log w"
    using stream_filtered [OF assms(1), of "je_unsafe E" "w_term w" ?ps] that w' n fl by (auto simp: assms(3))
  show "w_log w' = w_log w" if "lines_fit all"
    using fit_no_flood [OF assms(1), of ?ps] that w'(2) n by (simp add: assms(3))
qed

text \<open>
  C27. What a phase shows and captures. When the terminal accepts writes, the error of a phase is the error
  of its process and nothing else; the captured stderr is the first megabyte of everything the process
  wrote there, however it was chunked, its total is exact, and the truncation flag says whether a byte
  is missing. Unless the flood warning is logged, the terminal was sent the lines of the whole stderr,
  noise removed, each escaped, and nothing else, the unterminated last line included; and it is not
  logged when every line fits into the buffer of the filter. A copy never ends in a short write,
  whatever the terminal does.
\<close>

theorem phase_capture:
  assumes "\<forall>t x. fst (je_wr E t x) = None"
  shows "(case run_phase E clk phaseCtx base argv stdin w of
      (runErr, dur, stderr, outs, w') \<Rightarrow>
        (let res = je_newCmd E phaseCtx argv stdin; all = concat (cr_stderr res) in
          runErr = cr_err res \<and> outs = cr_stdout res \<and> dur = cr_end res - pc_start clk \<and>
          buf_String stderr = take 1048576 all \<and> buf_Total stderr = int (length all) \<and>
          buf_Truncated stderr = (buf_String stderr \<noteq> all) \<and>
          (w_log w' = w_log w \<longrightarrow>
             w_term w' = foldl (\<lambda>t l. snd (je_wr E t l)) (w_term w) (shown_lines (je_unsafe E) all)) \<and>
          (lines_fit all \<longrightarrow> w_log w' = w_log w))) \<and>
    fst (copy_stderr (je_unsafe E) wr ps vw) \<noteq> Some ErrShortWrite"
proof -
  obtain re d b outs w' where rp: "run_phase E clk phaseCtx base argv stdin w = (re, d, b, outs, w')"
    by (metis prod.exhaust)
  show ?thesis
    unfolding rp prod.case Let_def
    using phase_captured [OF assms rp refl] phase_shown [OF assms rp refl]
      copy_stderr_never_short [of "je_unsafe E" wr ps vw] by blast
qed

subsection \<open>The verdict on an action\<close>

lemma resolve_fst:
  "fst (resolveActionSummary U base act so se w) =
     (if list_ex summary_line (split_nl so) then ParseActionSummary U so
      else if list_ex summary_line (split_nl se) \<or> as_RawLine (ParseActionSummary U so) = []
      then ParseActionSummary U se else ParseActionSummary U so)"
  by (simp add: resolveActionSummary_def Let_def summary_matched)

lemma classify_success:
  "classifyAndLogOutcome unsafe ctx actx ts base phase None timeout dur b ob extra w = ((False, None), w)"
  by (simp add: classifyAndLogOutcome_def classifyExecOutcome_def split: prod.splits)

text \<open>The verdict on a clean exit, by the captured streams.\<close>

definition clean_verdict :: "('t, 'd) jobenv \<Rightarrow> config \<Rightarrow> bytes \<Rightarrow> bytes \<Rightarrow> goerr option" where
  "clean_verdict E cfg err out =
     (let s = (if list_ex summary_line (split_nl err) then ParseActionSummary (je_unicode E) err
               else ParseActionSummary (je_unicode E) out) in
      if list_ex summary_line (split_nl err @ split_nl out) \<and> as_Files s = 0
      then Some (ErrActionNoOp (action_String (Action cfg)) (EscapeUnsafe (je_unsafe E) (as_RawLine s)))
      else None)"

lemma finish_clean:
  "fst (finish_action E ctx actx cfg base (None, dur, stderr, outs, w)) =
     clean_verdict E cfg (buf_String stderr) (take 1048576 (concat outs))"
proof -
  have "captures streamCapBytes (concat outs) (foldl buf_put (new_buffer streamCapBytes) outs)"
    using captures_run [OF captures_new, of streamCapBytes outs] by simp
  then have out: "buf_String (foldl buf_put (new_buffer streamCapBytes) outs) = take 1048576 (concat outs)"
    by (simp add: captures_def buf_String_def streamCapBytes_def)
  obtain s w2 where r: "resolveActionSummary (je_unicode E) base (Action cfg) (buf_String stderr)
      (take 1048576 (concat outs)) w = (s, w2)" by fastforce
  have s: "s = fst (resolveActionSummary (je_unicode E) base (Action cfg) (buf_String stderr)
      (take 1048576 (concat outs)) w)" by (simp add: r)
  have f: "fst (finish_action E ctx actx cfg base (None, dur, stderr, outs, w)) =
      (if as_Matched s \<and> as_Files s = 0
       then Some (ErrActionNoOp (action_String (Action cfg)) (EscapeUnsafe (je_unsafe E) (as_RawLine s)))
       else None)"
    by (simp add: finish_action_def classify_success out r Let_def actionAccomplishedNothing_def)
  show ?thesis unfolding f s resolve_fst Let_def clean_verdict_def by (auto simp: summary_matched)
qed

lemma finish_failed:
  "fst (finish_action E ctx actx cfg base (Some e, dur, stderr, outs, w)) =
     (case classifyExecOutcome ctx actx (pc_samples (je_actionClock E)) (Some e) of
        outcomeTimeout \<Rightarrow> Some (ErrPhaseTimeout ''action'' (PhaseTimeout cfg))
      | outcomeExecError \<Rightarrow> Some (ErrPhaseExec ''action'' e)
      | _ \<Rightarrow> None)"
proof -
  have "classifyExecOutcome ctx actx ts (Some e) \<noteq> outcomeSuccess" for ts
    by (auto simp: classifyExecOutcome_def split: prod.splits if_splits)
  then show ?thesis
    by (cases "classifyExecOutcome ctx actx (pc_samples (je_actionClock E)) (Some e)")
      (auto simp: finish_action_def classifyAndLogOutcome_def Let_def)
qed

text \<open>
  C28. When an action that exited cleanly still fails the run, exactly: the summary is read from its
  stderr when that holds a summary line and otherwise from its stdout (each cut at the capture cap), and
  the run fails if and only if such a line exists and says that no file was processed.
\<close>

theorem action_verdict:
  "fst (finish_action E ctx actx cfg base (None, dur, stderr, outs, w)) =
     (let err = buf_String stderr; out = take 1048576 (concat outs);
          s = (if list_ex summary_line (split_nl err) then ParseActionSummary (je_unicode E) err
               else ParseActionSummary (je_unicode E) out) in
      if list_ex summary_line (split_nl err @ split_nl out) \<and> as_Files s = 0
      then Some (ErrActionNoOp (action_String (Action cfg)) (EscapeUnsafe (je_unsafe E) (as_RawLine s)))
      else None)"
  unfolding finish_clean clean_verdict_def Let_def ..

subsection \<open>The sweep\<close>

lemma sweep_loop_fs:
  "w_fs (sweep_loop fails ms w) p = (if p \<in> set ms \<and> fails p = None then None else w_fs w p) \<and>
   w_locked (sweep_loop fails ms w) = w_locked w"
  by (induction fails ms w rule: sweep_loop.induct) (auto split: option.splits)

text \<open>
  The startup sweep removes exactly the stale reports: with the lock taken, every listed file whose
  name matches the pattern is gone unless its removal failed, every other file is untouched, and the
  lock is released; without the lock nothing changes. Every name \<open>os.CreateTemp\<close> can give a report
  (the pattern with a random part in place of the star) matches.
\<close>

theorem sweep_exact:
  "(let w' = cleanStaleReports lock fails (Some names) w in
     w_fs w' p = (if lock = Inr True \<and> p \<in> set names \<and> matches_temp ''/cache'' p \<and> fails p = None
                  then None else w_fs w p) \<and>
     w_locked w' = (if lock = Inr True then False else w_locked w)) \<and>
   (CHR ''/'' \<in> set rnd \<or> matches_temp ''/cache'' (''/cache/fclones_report_'' @ rnd @ ''.txt''))"
proof -
  consider e where "lock = Inl e" | "lock = Inr False" | "lock = Inr True" by (cases lock) auto
  then show ?thesis
    by cases (auto simp: cleanStaleReports_def sweepStaleReports_def sweep_loop_fs cacheDir_def Let_def
        matches_temp_def reportTempPattern_def)
qed

subsection \<open>The action does run\<close>

lemma steps_cmds: "steps_to w err cs w' \<Longrightarrow> w_cmds w' = w_cmds w @ cs"
  by (auto simp: steps_to_def appends_def)

text \<open>
  The result of an action that ran, by what its process did: its error as the classification of the phase
  sees it, and after a clean exit the verdict on the captured streams.
\<close>

definition action_result :: "('t, 'd) jobenv \<Rightarrow> context_t \<Rightarrow> config \<Rightarrow> bytes list \<Rightarrow> bytes \<Rightarrow> goerr option" where
  "action_result E ctx cfg act report =
     (let actx = phaseContext ctx (PhaseTimeout cfg) (pc_ctx (je_actionClock E));
          res = je_newCmd E actx act report in
      case cr_err res of
        None \<Rightarrow> clean_verdict E cfg (take 1048576 (concat (cr_stderr res))) (take 1048576 (concat (cr_stdout res)))
      | Some e \<Rightarrow>
          (case classifyExecOutcome ctx actx (pc_samples (je_actionClock E)) (Some e) of
             outcomeTimeout \<Rightarrow> Some (ErrPhaseTimeout ''action'' (PhaseTimeout cfg))
           | outcomeExecError \<Rightarrow> Some (ErrPhaseExec ''action'' e)
           | _ \<Rightarrow> None))"

lemma action_runs:
  assumes "plain_base base" "buildActionArgs cfg = Inr (Some argv)" "ctx_Err ctx (je_actionCheck E) = None"
    and "je_openAction E = None" "w_fs w path = Some content" "\<forall>t x. fst (je_wr E t x) = None"
  shows "w_cmds (snd (runFclonesAction E ctx cfg path base w)) = w_cmds w @ [argv] \<and>
    fst (runFclonesAction E ctx cfg path base w) = action_result E ctx cfg argv content"
proof -
  let ?actx = "phaseContext ctx (PhaseTimeout cfg) (pc_ctx (je_actionClock E))"
  let ?w1 = "wlog base Info ''performing action''
     [(''binary'', VStr ''fclones''), (''args'', VArgs argv), (''report'', VStr path)] w"
  obtain re d b os w2 where rp: "run_phase E (je_actionClock E) ?actx base argv content ?w1
      = (re, d, b, os, w2)" by (metis prod.exhaust)
  have eq: "runFclonesAction E ctx cfg path base w = finish_action E ctx ?actx cfg base (re, d, b, os, w2)"
    using assms rp by (simp add: runFclonesAction_def os_Open_def)
  have "w_cmds (snd (runFclonesAction E ctx cfg path base w)) = w_cmds w @ [argv]"
    using steps_cmds [OF finish_steps [OF assms(1)], of E ctx ?actx cfg re d b os w2]
      steps_cmds [OF run_phase_steps [OF rp]] by (simp add: eq)
  moreover have "fst (runFclonesAction E ctx cfg path base w) = action_result E ctx cfg argv content"
  proof -
    note pc = phase_captured [OF assms(6) rp refl]
    show ?thesis
    proof (cases re)
      case None
      then have "cr_err (je_newCmd E ?actx argv content) = None" using pc by simp
      then show ?thesis using pc None by (simp add: eq finish_clean action_result_def Let_def)
    next
      case (Some e)
      then have "cr_err (je_newCmd E ?actx argv content) = Some e" using pc by simp
      then show ?thesis using Some by (simp add: eq finish_failed action_result_def Let_def)
    qed
  qed
  ultimately show ?thesis by blast
qed

lemma report_runs:
  assumes "plain_base base" "buildActionArgs cfg = Inr (Some argv)" "ctx_Err ctx (je_actionCheck E) = None"
    and "je_openAction E = None" "je_openReport E = None" "w_fs w path = Some content"
    and "\<forall>t x. fst (je_wr E t x) = None"
    and "DecodeReport (report_fuel content) (je_jdec E) (je_NewDecoder E content) maxLoggedGroups = Inr rep"
    and "0 < rp_TotalGroups rep"
  shows "w_cmds (snd (read_report E ctx cfg path base d w)) = w_cmds w @ [argv] \<and>
    fst (read_report E ctx cfg path base d w) = action_result E ctx cfg argv content"
proof -
  define w1 where "w1 = (case je_closeReport E of
      Some ce \<Rightarrow> wlog base Warn ''failed to close report file after decode'' [(''error'', VErr (ErrSys ce))] w
    | None \<Rightarrow> w)"
  have w1: "w_cmds w1 = w_cmds w" "w_fs w1 = w_fs w" by (auto simp: w1_def split: option.splits)
  have act: "Action cfg \<noteq> actionGroup" using assms(2) by (auto simp: buildActionArgs_def)
  have "read_report E ctx cfg path base d w = after_report E ctx cfg path base d rep w1"
    by (simp add: read_report_def os_Open_def assms Let_def w1_def)
  moreover obtain w2 where "after_report E ctx cfg path base d rep w1 = runFclonesAction E ctx cfg path base w2"
    "w_cmds w2 = w_cmds w1" "w_fs w2 = w_fs w1"
    using assms(9) act by (simp add: after_report_def shouldRunAction_def Let_def logDuplicateGroups_def)
  ultimately show ?thesis
    using action_runs [OF assms(1-4) _ assms(7), of w2 path content] w1 assms(6) by simp
qed

lemma job_with_action:
  assumes "je_TryLock E = Inr True" "buildScanArgs cfg = Inr scan" "buildActionArgs cfg = Inr (Some act)"
    and "je_CreateTemp E = Inr path" "\<forall>t x. fst (je_wr E t x) = None" "scan_found E ctx cfg scan"
    and "je_openReport E = None" "je_openAction E = None" "ctx_Err ctx (je_actionCheck E) = None"
  shows "w_cmds (snd (runFclonesJob E ctx cfg trig w)) = w_cmds w @ [scan, act] \<and>
    fst (runFclonesJob E ctx cfg trig w) = (True, action_result E ctx cfg act (scan_output E ctx cfg))"
proof -
  let ?base = "[(''scan_id'', VStr (newScanID (je_rand E))), (''trigger'', VStr trig)]"
  let ?ctx = "phaseContext ctx (PhaseTimeout cfg) (pc_ctx (je_scanClock E))"
  let ?res = "action_result E ctx cfg act (scan_output E ctx cfg)"
  have pb: "plain_base ?base" by (simp add: plain_base_def)
  have run: "w_cmds (snd (scan_with_report E ctx cfg scan path ?base w0)) = w_cmds w0 @ [scan, act] \<and>
    fst (scan_with_report E ctx cfg scan path ?base w0) = ?res" for w0
  proof -
    define as where "as = [(''target'', VStr (ScanPath cfg)), (''binary'', VStr ''fclones''),
       (''args'', VArgs scan), (''timeout'', VDur (PhaseTimeout cfg))]"
    obtain re d b outs w2 where rp: "run_phase E (je_scanClock E) ?ctx ?base scan []
        (wlog ?base Info ''scan starting'' as w0) = (re, d, b, outs, w2)" by (metis prod.exhaust)
    have "re = None" using phase_captured [OF assms(5) rp refl] assms(6) by (simp add: scan_found_def Let_def)
    have outs: "concat outs = scan_output E ctx cfg"
      using run_phase_results [OF rp] by (simp add: scan_output_def assms(2))
    define w3 where "w3 = w2\<lparr>w_fs := (w_fs w2)(path := Some (concat outs))\<rparr>"
    define w4 where "w4 = (case je_closeTemp E of
        Some ce \<Rightarrow> wlog ?base Warn ''failed to close report temp file'' [(''error'', VErr (ErrSys ce))] w3
      | None \<Rightarrow> w3)"
    have w4: "w_cmds w4 = w_cmds w0 @ [scan]" "w_fs w4 path = Some (scan_output E ctx cfg)"
      using steps_cmds [OF run_phase_steps [OF rp]] by (auto simp: w4_def w3_def outs split: option.splits)
    have r: "scan_with_report E ctx cfg scan path ?base w0 = read_report E ctx cfg path ?base d w4"
      unfolding scan_with_report_def Let_def as_def [symmetric] rp prod.case w3_def [symmetric]
        w4_def [symmetric] \<open>re = None\<close> classify_success by simp
    have "scan_output E ctx cfg = concat (cr_stdout (je_newCmd E ?ctx scan []))"
      by (simp add: scan_output_def assms(2))
    with assms(6) obtain rep where "DecodeReport (report_fuel (scan_output E ctx cfg)) (je_jdec E)
        (je_NewDecoder E (scan_output E ctx cfg)) maxLoggedGroups = Inr rep" "0 < rp_TotalGroups rep"
      by (auto simp: scan_found_def Let_def split: sum.splits)
    then show ?thesis
      using report_runs [OF pb assms(3,9,8,7) w4(2) assms(5)] w4(1) by (simp add: r)
  qed
  obtain err w1 where s: "scan_with_report E ctx cfg scan path ?base (w\<lparr>w_locked := True, w_fs := (w_fs w)(path := Some [])\<rparr>)
      = (err, w1)" by fastforce
  then have "w_cmds w1 = w_cmds w @ [scan, act]" "err = ?res"
    using run [of "w\<lparr>w_locked := True, w_fs := (w_fs w)(path := Some [])\<rparr>"] by simp_all
  then show ?thesis
    using s by (simp add: runFclonesJob_def assms locked_job_def Let_def)
qed

text \<open>
  C3. When everything goes well up to there the action does run: with the lock, a report file, a terminal
  that accepts writes, a scan that exits cleanly and a report that decodes with a duplicate group, a
  live context and a report that can be reopened, the job runs the scan and then the action, on the
  output of the scan. Its result is then the result of the action: it returns no error exactly when the
  process of the action exits cleanly and no summary line in what it printed says that no file was
  processed, or fails once the shutdown has begun; a clean exit with such a line is the no-op error, and
  any other failure of the process is an error of the action phase.
\<close>

theorem job_runs_action:
  assumes "je_TryLock E = Inr True" "buildScanArgs cfg = Inr scan" "buildActionArgs cfg = Inr (Some act)"
    and "je_CreateTemp E = Inr path" "\<forall>t x. fst (je_wr E t x) = None" "scan_found E ctx cfg scan"
    and "je_openReport E = None" "je_openAction E = None" "ctx_Err ctx (je_actionCheck E) = None"
    and "actx = phaseContext ctx (PhaseTimeout cfg) (pc_ctx (je_actionClock E))"
    and "res = je_newCmd E actx act (scan_output E ctx cfg)"
    and "err = take 1048576 (concat (cr_stderr res))" and "out = take 1048576 (concat (cr_stdout res))"
    and "s = ParseActionSummary (je_unicode E) (if list_ex summary_line (split_nl err) then err else out)"
    and "nothing = (list_ex summary_line (split_nl err @ split_nl out) \<and> as_Files s = 0)"
    and "verdict = classifyExecOutcome ctx actx (pc_samples (je_actionClock E)) (cr_err res)"
  shows "w_cmds (snd (runFclonesJob E ctx cfg trig w)) = w_cmds w @ [scan, act] \<and>
    fst (fst (runFclonesJob E ctx cfg trig w)) \<and>
    (snd (fst (runFclonesJob E ctx cfg trig w)) = None \<longleftrightarrow>
       (if cr_err res = None then \<not> nothing else verdict = outcomeShutdown)) \<and>
    (cr_err res = None \<and> nothing \<longrightarrow> snd (fst (runFclonesJob E ctx cfg trig w)) =
       Some (ErrActionNoOp (action_String (Action cfg)) (EscapeUnsafe (je_unsafe E) (as_RawLine s)))) \<and>
    (verdict = outcomeTimeout \<longrightarrow> snd (fst (runFclonesJob E ctx cfg trig w)) =
       Some (ErrPhaseTimeout ''action'' (PhaseTimeout cfg))) \<and>
    (verdict = outcomeExecError \<longrightarrow> snd (fst (runFclonesJob E ctx cfg trig w)) =
       Some (ErrPhaseExec ''action'' (the (cr_err res))))"
proof -
  note j = job_with_action [OF assms(1-9), of trig w]
  have s: "s = (if list_ex summary_line (split_nl err) then ParseActionSummary (je_unicode E) err
      else ParseActionSummary (je_unicode E) out)" using assms(14) by simp
  have r: "snd (fst (runFclonesJob E ctx cfg trig w)) =
      (case cr_err res of
         None \<Rightarrow> if nothing then Some (ErrActionNoOp (action_String (Action cfg))
                   (EscapeUnsafe (je_unsafe E) (as_RawLine s))) else None
       | Some e \<Rightarrow> (case verdict of outcomeTimeout \<Rightarrow> Some (ErrPhaseTimeout ''action'' (PhaseTimeout cfg))
                    | outcomeExecError \<Rightarrow> Some (ErrPhaseExec ''action'' e) | _ \<Rightarrow> None))"
    using j unfolding action_result_def clean_verdict_def Let_def assms(10) [symmetric] assms(11) [symmetric]
      assms(12) [symmetric] assms(13) [symmetric] s [symmetric] assms(15) [symmetric]
    by (auto simp: assms(16) split: option.split)
  have v: "verdict = outcomeSuccess \<longleftrightarrow> cr_err res = None"
    by (auto simp: assms(16) classifyExecOutcome_def split: prod.splits if_splits)
  show ?thesis using j r v by (cases "cr_err res"; cases verdict) auto
qed

subsection \<open>A failed scan\<close>

lemma classify_shutdown:
  assumes "done_by ctx t2" "done_by ctx t3"
  shows "classifyExecOutcome ctx phaseCtx (t1, t2, t3) (Some e) = outcomeShutdown"
  using assms ctx_Err_done [of ctx] by (simp add: classifyExecOutcome_def)

lemma run_phase_failed:
  assumes "cr_err (je_newCmd E phaseCtx argv stdin) = Some e"
  shows "\<exists>dur b outs w'. run_phase E clk phaseCtx base argv stdin w = (Some e, dur, b, outs, w')"
  using assms by (auto simp: run_phase_def run_error_def Let_def split: prod.splits)

text \<open>What a failed scan process means for the run, by the classification of its phase.\<close>

definition scan_error :: "config \<Rightarrow> goerr \<Rightarrow> phaseOutcome \<Rightarrow> goerr option" where
  "scan_error cfg e out =
     (case out of
        outcomeTimeout \<Rightarrow> Some (ErrPhaseTimeout ''scan'' (PhaseTimeout cfg))
      | outcomeExecError \<Rightarrow> Some (ErrPhaseExec ''scan'' e)
      | _ \<Rightarrow> None)"

lemma run_phase_failed_cmds:
  assumes "cr_err (je_newCmd E phaseCtx argv stdin) = Some e"
  shows "\<exists>dur b outs w'. run_phase E clk phaseCtx base argv stdin w = (Some e, dur, b, outs, w') \<and>
    w_cmds w' = w_cmds w @ [argv]"
proof -
  obtain dur b outs w' where r: "run_phase E clk phaseCtx base argv stdin w = (Some e, dur, b, outs, w')"
    using run_phase_failed [OF assms] by blast
  then show ?thesis using steps_cmds [OF run_phase_steps [OF r]] by blast
qed

lemma classify_failed:
  assumes "classifyExecOutcome parent phaseCtx ts (Some e) = out"
  shows "\<exists>w'. classifyAndLogOutcome unsafe parent phaseCtx ts base ''scan'' (Some e) (PhaseTimeout cfg) dur b so extra w
      = ((True, scan_error cfg e out), w') \<and> w_cmds w' = w_cmds w"
proof -
  have "out \<noteq> outcomeSuccess" using assms by (auto simp: classifyExecOutcome_def split: prod.splits if_splits)
  then show ?thesis
    by (cases out) (simp_all add: classifyAndLogOutcome_def assms scan_error_def Let_def)
qed

lemma failed_job:
  assumes "je_TryLock E = Inr True" "buildScanArgs cfg = Inr scan" "je_CreateTemp E = Inr path"
    and "phaseContext ctx (PhaseTimeout cfg) (pc_ctx (je_scanClock E)) = sc"
    and "cr_err (je_newCmd E sc scan []) = Some e"
    and "classifyExecOutcome ctx sc (pc_samples (je_scanClock E)) (Some e) = out"
  shows "fst (runFclonesJob E ctx cfg trig w) = (True, scan_error cfg e out) \<and>
    w_cmds (snd (runFclonesJob E ctx cfg trig w)) = w_cmds w @ [scan]"
proof -
  have "\<exists>w''. scan_with_report E ctx cfg scan path base w' = (scan_error cfg e out, w'') \<and>
      w_cmds w'' = w_cmds w' @ [scan]" for base w'
  proof -
    let ?w1 = "wlog base Info ''scan starting'' [(''target'', VStr (ScanPath cfg)), (''binary'', VStr ''fclones''),
      (''args'', VArgs scan), (''timeout'', VDur (PhaseTimeout cfg))] w'"
    obtain dur b outs w2 where r: "run_phase E (je_scanClock E) sc base scan [] ?w1 = (Some e, dur, b, outs, w2)"
      "w_cmds w2 = w_cmds ?w1 @ [scan]"
      using run_phase_failed_cmds [OF assms(5)] by blast
    define w4 where "w4 = (case je_closeTemp E of
        Some ce \<Rightarrow> wlog base Warn ''failed to close report temp file'' [(''error'', VErr (ErrSys ce))]
          (w2\<lparr>w_fs := (w_fs w2)(path := Some (concat outs))\<rparr>)
      | None \<Rightarrow> w2\<lparr>w_fs := (w_fs w2)(path := Some (concat outs))\<rparr>)"
    have w4: "w_cmds w4 = w_cmds w' @ [scan]" using r(2) by (simp add: w4_def split: option.split)
    obtain w5 where "classifyAndLogOutcome (je_unsafe E) ctx sc (pc_samples (je_scanClock E)) base ''scan''
        (Some e) (PhaseTimeout cfg) dur b None [] w4 = ((True, scan_error cfg e out), w5)" "w_cmds w5 = w_cmds w4"
      using classify_failed [OF assms(6)] by blast
    then show ?thesis
      unfolding scan_with_report_def Let_def assms(4) r(1) prod.case w4_def [symmetric] using w4 by simp
  qed
  from this [of "[(''scan_id'', VStr (newScanID (je_rand E))), (''trigger'', VStr trig)]"
      "w\<lparr>w_locked := True, w_fs := (w_fs w)(path := Some [])\<rparr>"]
  show ?thesis by (auto simp: runFclonesJob_def locked_job_def assms(1-3) Let_def)
qed

subsection \<open>A concrete job\<close>

definition demo_cfg :: config where
  "demo_cfg = \<lparr>ScanPath = ''/scandir'', cfgArgs = [], Action = actionLink, ActionArgs = [],
     Interval = hour, PhaseTimeout = hour, Mode = modeOnce\<rparr>"

definition demo_job :: "(bytes list, doc) jobenv" where
  "demo_job = \<lparr>je_unicode = no_unicode, je_unsafe = (\<lambda>_. False), je_wr = list_sink,
     je_TryLock = Inr True, je_rand = Some ''abcd'', je_CreateTemp = Inr ''/cache/fclones_report_1.txt'',
     je_newCmd = (\<lambda>ctx argv stdin. \<lparr>cr_stdout = [''{}''], cr_stderr = [''ok''], cr_err = None, cr_end = 7,
       cr_files = (\<lambda>f. f)\<rparr>),
     je_closeTemp = None, je_openReport = None, je_closeReport = None, je_jdec = doc_dec,
     je_NewDecoder = (\<lambda>_. demo_doc), je_removeFails = False,
     je_scanClock = \<lparr>pc_ctx = 0, pc_start = 0, pc_samples = (8, 8, 8)\<rparr>, je_actionCheck = 9,
     je_openAction = None, je_actionClock = \<lparr>pc_ctx = 10, pc_start = 10, pc_samples = (11, 11, 11)\<rparr>\<rparr>"

definition live_ctx :: context_t where
  "live_ctx = \<lparr>c_done = None, c_cause = ErrCanceled\<rparr>"

definition demo_world :: "bytes list world" where
  "demo_world = \<lparr>w_fs = (\<lambda>_. None), w_locked = False, w_log = [], w_term = [], w_cmds = []\<rparr>"

lemma demo_job_args: "buildScanArgs demo_cfg = Inr [''group'', ''/scandir'', ''--cache'', ''-f'', ''json'']
    \<and> buildActionArgs demo_cfg = Inr (Some [''link''])"
  by (simp add: demo_cfg_def buildScanArgs_def buildActionArgs_def demo_parse)

lemma demo_found: "scan_found demo_job live_ctx demo_cfg argv"
proof -
  have "\<exists>r. DecodeReport 3 doc_dec demo_doc 100 = Inr r \<and> 0 < rp_TotalGroups r"
    by (simp add: DecodeReport_def doc_dec_def demo_doc_def rd_field_def decodeGroups_def openStrict_def
        numeral_3_eq_3 demo_group_def add_group_def new_reportDecoder_def zero_report_def Let_def)
  then show ?thesis
    by (auto simp: scan_found_def demo_job_def report_fuel_def maxLoggedGroups_def Let_def numeral_3_eq_3)
qed

theorem job_runs_action_witness:
  "w_cmds (snd (runFclonesJob demo_job live_ctx demo_cfg ''once'' demo_world))
     = [[''group'', ''/scandir'', ''--cache'', ''-f'', ''json''], [''link'']] \<and>
   snd (fst (runFclonesJob demo_job live_ctx demo_cfg ''once'' demo_world)) = None"
proof -
  have "split_nl ''ok'' = [''ok'']" "\<not> summary_line ''ok''" "split_nl ''{}'' = [''{}'']" "\<not> summary_line ''{}''"
    by (simp_all add: summary_line_def contains_def)
  then show ?thesis
    using job_runs_action [of demo_job demo_cfg "[''group'', ''/scandir'', ''--cache'', ''-f'', ''json'']" "[''link'']"
      "''/cache/fclones_report_1.txt''" live_ctx, OF _ _ _ _ _ _ _ _ _ refl refl refl refl refl refl refl,
      of "''once''" demo_world] demo_job_args demo_found
    by (simp add: demo_job_def list_sink_def ctx_Err_def live_ctx_def demo_world_def)
qed

theorem job_cleans_up_witness:
  "w_fs (snd (runFclonesJob demo_job live_ctx demo_cfg ''once'' demo_world)) ''/cache/fclones_report_1.txt'' = None \<and>
   w_fs (snd (runFclonesJob demo_job live_ctx demo_cfg ''once'' demo_world)) ''/scandir/a'' = None \<and>
   \<not> w_locked (snd (runFclonesJob demo_job live_ctx demo_cfg ''once'' demo_world))"
proof -
  have "left_alone demo_job demo_cfg n" for n by (simp add: left_alone_def demo_job_def)
  moreover have "report_of demo_job demo_cfg n \<longleftrightarrow> n = ''/cache/fclones_report_1.txt''" for n
    using demo_job_args by (auto simp: report_of_def demo_job_def)
  moreover have "\<not> je_removeFails demo_job" "je_TryLock demo_job = Inr True" "\<not> w_locked demo_world"
    "w_fs demo_world = (\<lambda>_. None)" by (simp_all add: demo_job_def demo_world_def)
  ultimately show ?thesis
    using job_cleans_up [of demo_job live_ctx demo_cfg "''once''" demo_world] by simp
qed

theorem phase_capture_witness:
  "(case run_phase demo_job (je_scanClock demo_job) live_ctx [] [''group''] [] demo_world of
      (runErr, dur, stderr, outs, w') \<Rightarrow> runErr = None \<and> buf_String stderr = ''ok'' \<and> dur = 7 \<and>
        w_log w' = [] \<and> w_term w' = [''ok''])"
proof -
  have fit: "lines_fit ''ok''" by (simp add: lines_fit_def MaxLineBytes_def)
  have "\<not> containsUnsafeRune (\<lambda>_. False) p" for p
    by (induction "\<lambda>_::rune. False" p rule: containsUnsafeRune.induct) (subst containsUnsafeRune.simps, simp)
  then have "sanitizeControlBytes (\<lambda>_. False) ''ok'' = ''ok''" "\<not> shouldFilterLine ''ok''"
    by (simp_all add: sanitizeControlBytes_def shouldFilterLine_def contains_def cut_def
        utf8_valid_ascii isC0OrDEL_def runes_ascii ascii_simps)
  then have shown: "shown_lines (\<lambda>_. False) ''ok'' = [''ok'']" by (simp add: shown_lines_def)
  show ?thesis
    using phase_capture [where E = demo_job and clk = "je_scanClock demo_job" and phaseCtx = live_ctx
        and base = "[]" and argv = "[''group'']" and stdin = "[]" and w = demo_world
        and wr = list_sink and ps = "[]" and vw = "(New [], new_buffer 4)"]
    by (auto simp: demo_job_def list_sink_def demo_world_def Let_def fit shown)
qed

end
