(* ===== verification/Daemon.thy ===== *)
theory Daemon
  imports Scheduler
begin

text \<open>
  \<open>health.go\<close> and \<open>daemon.go\<close>: the healthcheck policy, what a finished run does to the health marker and
  to the last-run stamp, and the life of the daemon around its runs.

  The health latch, the stamp and the trigger queue are third-party packages: the record \<open>svc\<close> holds
  the operations the code calls, on states of any type. One executor serves the queue, so the runs of a
  daemon are a sequence; each comes with what its environment answers.
\<close>

subsection \<open>Third-party services\<close>

record RunRecord =
  rr_Time :: instant
  rr_OK :: bool

record ('h, 's) svc =
  sv_Set :: "'h \<Rightarrow> bool \<Rightarrow> 'h"
  sv_BeginDrain :: "'h \<Rightarrow> 'h"
  sv_healthy :: "'h \<Rightarrow> bool"
  sv_Record :: "'s \<Rightarrow> bool \<Rightarrow> syserr option \<times> 's"
  sv_Due :: "'s \<Rightarrow> duration \<Rightarrow> instant \<Rightarrow> bool"
  sv_Last :: "'s \<Rightarrow> RunRecord"
  sv_Remaining :: "'s \<Rightarrow> duration \<Rightarrow> instant \<Rightarrow> duration"

subsection \<open>health.go\<close>

text \<open>The lease whose duration arms the probe's deadline; \<open>None\<close> is no deadline.\<close>

record Lease =
  le_Interval :: duration
  le_Cycles :: int
  le_Timeout :: duration
  le_Attempts :: int

definition probeOptions :: "envp \<Rightarrow> Lease option" where
  "probeOptions E =
     (case sched_ParseInterval E (env_Getenv E ''SCAN_INTERVAL'') defaultInterval of
        (mode, interval) \<Rightarrow>
          if mode = ModeExternal \<or> mode = ModeOnce then None
          else (case env_DurationStrict E ''SCAN_TIMEOUT'' of
                  Inl _ \<Rightarrow> None
                | Inr v \<Rightarrow>
                    let timeout = (case v of None \<Rightarrow> defaultScanTimeout | Some d \<Rightarrow> d) in
                    if timeout \<le> 0 then None
                    else Some \<lparr>le_Interval = interval, le_Cycles = 2, le_Timeout = timeout, le_Attempts = 2\<rparr>))"

definition jobHealthSignal :: "ctxerr option \<Rightarrow> bool \<Rightarrow> goerr option \<Rightarrow> bool \<times> bool" where
  "jobHealthSignal ctxErr did_run runErr =
     (if \<not> did_run \<and> runErr = None then (False, False) else markerAction ctxErr runErr)"

subsection \<open>Runs of the daemon\<close>

definition triggerStartup :: bytes where "triggerStartup = ''startup''"
definition triggerInterval :: bytes where "triggerInterval = ''interval''"
definition socketPath :: bytes where "socketPath = ''/tmp/fclones-wrapper.sock''"
definition queueCapacity :: int where "queueCapacity = 16"

record ('t, 'h, 's) dstate =
  ds_world :: "'t world"
  ds_health :: 'h
  ds_stamp :: 's

definition recordOutcome ::
  "('h, 's) svc \<Rightarrow> bytes \<Rightarrow> ctxerr option \<Rightarrow> bool \<Rightarrow> goerr option \<Rightarrow> ('t, 'h, 's) dstate \<Rightarrow> ('t, 'h, 's) dstate" where
  "recordOutcome S trig ctxErr did_run runErr d =
     (case jobHealthSignal ctxErr did_run runErr of
        (set_it, healthy) \<Rightarrow>
          if \<not> set_it then d
          else let d1 = d\<lparr>ds_health := sv_Set S (ds_health d) healthy\<rparr> in
            if trig \<noteq> triggerStartup \<and> trig \<noteq> triggerInterval then d1
            else (case sv_Record S (ds_stamp d1) healthy of
                    (None, s) \<Rightarrow> d1\<lparr>ds_stamp := s\<rparr>
                  | (Some e, s) \<Rightarrow> d1\<lparr>ds_stamp := s, ds_world :=
                      wlog [] Warn ''cannot record the scan outcome on /cache; the next restart may repeat a scan this record would have skipped''
                        [(''error'', VErr (ErrSys e))] (ds_world d1)\<rparr>))"

record Outcome =
  o_OK :: bool
  o_Duration :: duration
  o_Reason :: bytes

text \<open>
  One request: its trigger, the context it runs under, what the environment answers, the instant of the
  \<open>ctx.Err()\<close> after the job, and the time the run took.
\<close>

record ('t, 'd) request =
  q_trigger :: bytes
  q_ctx :: context_t
  q_env :: "('t, 'd) jobenv"
  q_errAt :: instant
  q_dur :: duration

text \<open>What \<open>run\<close> returns, by the result of the job and the time it took.\<close>

definition run_outcome :: "bool \<Rightarrow> goerr option \<Rightarrow> duration \<Rightarrow> Outcome" where
  "run_outcome did_run err dur =
     \<lparr>o_OK = (err = None), o_Duration = dur,
      o_Reason = (if \<not> did_run \<and> err = None
                  then ''skipped: scan lock held by another process sharing /cache'' else [])\<rparr>"

definition daemon_run ::
  "('h, 's) svc \<Rightarrow> config \<Rightarrow> ('t, 'd) request \<Rightarrow> ('t, 'h, 's) dstate \<Rightarrow> Outcome \<times> ('t, 'h, 's) dstate" where
  "daemon_run S cfg q d =
     (case runFclonesJob (q_env q) (q_ctx q) cfg (q_trigger q) (ds_world d) of
        ((did_run, err), w) \<Rightarrow>
          let d1 = recordOutcome S (q_trigger q) (ctx_Err (q_ctx q) (q_errAt q)) did_run err (d\<lparr>ds_world := w\<rparr>) in
          (run_outcome did_run err (q_dur q), d1))"

text \<open>\<open>tick\<close>: a rejected submission is logged and skipped; an accepted one is a request to the executor.\<close>

definition tick :: "bytes \<Rightarrow> syserr option \<Rightarrow> 't world \<Rightarrow> bool \<times> 't world" where
  "tick trig submitErr w =
     (case submitErr of
        Some e \<Rightarrow> (False, wlog [] Warn ''scheduled scan skipped''
                     [(''trigger'', VStr trig), (''reason'', VErr (ErrSys e))] w)
      | None \<Rightarrow> (True, w))"

text \<open>
  The ticker. Its goroutine submits the startup scan if one is due and waits for its result; then it hands
  \<open>scheduler.RunLoop\<close> the options below, read from the stamp and the clock at that moment: the loop fires
  for the first time after \<open>FirstDelay\<close> and then once per interval. \<open>startTicker\<close> is the sequence of triggers
  submitted up to the \<open>n\<close>-th firing of the loop.
\<close>

record LoopOptions =
  lo_Interval :: duration
  lo_FireOnStart :: bool
  lo_FirstDelay :: duration

definition tickerOptions :: "('h, 's) svc \<Rightarrow> 's \<Rightarrow> duration \<Rightarrow> instant \<Rightarrow> LoopOptions" where
  "tickerOptions S stamp interval now =
     \<lparr>lo_Interval = interval, lo_FireOnStart = False, lo_FirstDelay = sv_Remaining S stamp interval now\<rparr>"

definition startTicker :: "bool \<Rightarrow> bool \<Rightarrow> nat \<Rightarrow> bytes list" where
  "startTicker enabled startupDue n =
     (if \<not> enabled then []
      else (if startupDue then [triggerStartup] else []) @ replicate n triggerInterval)"

definition builtinBootState ::
  "('h, 's) svc \<Rightarrow> 's \<Rightarrow> duration \<Rightarrow> instant \<Rightarrow> bool \<times> bool \<times> RunRecord" where
  "builtinBootState S stamp interval now =
     (let due = sv_Due S stamp interval now; last_rec = sv_Last S stamp in
      (due, \<not> due \<and> rr_OK last_rec, last_rec))"

text \<open>From the bound socket to the marker's boot state; also says whether the startup scan is due.\<close>

definition daemon_boot ::
  "('h, 's) svc \<Rightarrow> config \<Rightarrow> instant \<Rightarrow> ('t, 'h, 's) dstate \<Rightarrow> bool \<times> ('t, 'h, 's) dstate" where
  "daemon_boot S cfg now d =
     (let builtin = (Mode cfg = modeBuiltin) in
      if builtin then
        (case builtinBootState S (ds_stamp d) (Interval cfg) now of
           (startupDue, bootHealthy, last_rec) \<Rightarrow>
             let d1 = (if \<not> startupDue
                       then d\<lparr>ds_world := wlog [] Info ''startup scan skipped, a completed scan survived the restart''
                                [(''completed'', VInt (rr_Time last_rec)), (''ok'', VBool (rr_OK last_rec))] (ds_world d)\<rparr>
                       else d) in
             (startupDue, d1\<lparr>ds_health := sv_Set S (ds_health d1) bootHealthy\<rparr>))
      else (False, d\<lparr>ds_health := sv_Set S (ds_health d) (Mode cfg = modeExternal)\<rparr>))"

definition serve ::
  "('h, 's) svc \<Rightarrow> config \<Rightarrow> ('t, 'h, 's) dstate \<Rightarrow> ('t, 'd) request \<Rightarrow> ('t, 'h, 's) dstate" where
  "serve S cfg d q = snd (daemon_run S cfg q d)"

text \<open>
  What happens beside the main flow of \<open>runDaemon\<close>: the job of the executor ends, its outcome is recorded,
  the server reports an accepted request, a submission of the ticker is refused. \<open>Ran\<close> is a job and its
  record with nothing in between.
\<close>

datatype ('t, 'd) devent =
    Ran "('t, 'd) request"
  | JobEnded "('t, 'd) request"
  | OutcomeRecorded bytes "ctxerr option" bool "goerr option"
  | Queued
  | TickRefused bytes syserr

fun dev_step ::
  "('h, 's) svc \<Rightarrow> config \<Rightarrow> ('t, 'h, 's) dstate \<Rightarrow> ('t, 'd) devent \<Rightarrow> ('t, 'h, 's) dstate" where
  "dev_step S cfg d (Ran q) = serve S cfg d q"
| "dev_step S cfg d (JobEnded q) =
     d\<lparr>ds_world := snd (runFclonesJob (q_env q) (q_ctx q) cfg (q_trigger q) (ds_world d))\<rparr>"
| "dev_step S cfg d (OutcomeRecorded trig ctxErr did_run err) = recordOutcome S trig ctxErr did_run err d"
| "dev_step S cfg d Queued = d\<lparr>ds_world := wlog [] Info ''triggered scan queued'' [] (ds_world d)\<rparr>"
| "dev_step S cfg d (TickRefused trig e) = d\<lparr>ds_world := snd (tick trig (Some e) (ds_world d))\<rparr>"

text \<open>The statements of \<open>runDaemon\<close> after the boot state.\<close>

definition container_started ::
  "config \<Rightarrow> int \<Rightarrow> bool \<Rightarrow> ('t, 'h, 's) dstate \<Rightarrow> ('t, 'h, 's) dstate" where
  "container_started cfg uid startupDue d =
     d\<lparr>ds_world := wlog [] Info (''container started ('' @ runMode_String (Mode cfg) @ '' scheduling)'')
        ([(''uid'', VInt uid), (''mode'', VStr (runMode_String (Mode cfg))),
          (''interval'', VDur (Interval cfg)), (''target'', VStr (ScanPath cfg)),
          (''action'', VStr (action_String (Action cfg))),
          (''phase_timeout'', VDur (PhaseTimeout cfg)), (''socket'', VStr socketPath)] @
         (if Mode cfg = modeBuiltin then [(''startup_scan'', VBool startupDue)] else [])) (ds_world d)\<rparr>"

definition shutting_down :: "context_t \<Rightarrow> ('t, 'h, 's) dstate \<Rightarrow> ('t, 'h, 's) dstate" where
  "shutting_down ctx d = d\<lparr>ds_world := wlog [] Info ''shutting down'' [(''cause'', VErr (c_cause ctx))] (ds_world d)\<rparr>"

definition begin_drain :: "('h, 's) svc \<Rightarrow> ('t, 'h, 's) dstate \<Rightarrow> ('t, 'h, 's) dstate" where
  "begin_drain S d = d\<lparr>ds_health := sv_BeginDrain S (ds_health d)\<rparr>"

text \<open>The last line, and after it the deferred removal of the socket.\<close>

definition shutdown_complete :: "('t, 'h, 's) dstate \<Rightarrow> ('t, 'h, 's) dstate" where
  "shutdown_complete d =
     (let w = wlog [] Info ''shutdown complete'' [] (ds_world d) in
      d\<lparr>ds_world := w\<lparr>w_fs := (w_fs w)(socketPath := None)\<rparr>\<rparr>)"

text \<open>
  \<open>runDaemon\<close>, with what happens beside it between two of its statements: before the line that says the
  container started, until the context is done, before the drain, and during the drain (the run in
  flight and the requests already accepted).
\<close>

record ('t, 'd) segments =
  sg_start :: "('t, 'd) devent list"
  sg_serve :: "('t, 'd) devent list"
  sg_notice :: "('t, 'd) devent list"
  sg_drain :: "('t, 'd) devent list"

definition runDaemon ::
  "('h, 's) svc \<Rightarrow> context_t \<Rightarrow> config \<Rightarrow> syserr option \<Rightarrow> instant \<Rightarrow> int \<Rightarrow> ('t, 'd) segments
     \<Rightarrow> ('t, 'h, 's) dstate \<Rightarrow> goerr option \<times> ('t, 'h, 's) dstate" where
  "runDaemon S ctx cfg listenErr now uid sg d =
     (case listenErr of
        Some e \<Rightarrow>
          (Some (ErrSys e),
           d\<lparr>ds_world := wlog [] Error ''cannot bind trigger socket''
               [(''path'', VStr socketPath), (''error'', VErr (ErrSys e))] (ds_world d),
             ds_health := sv_Set S (ds_health d) False\<rparr>)
      | None \<Rightarrow>
          (case daemon_boot S cfg now d of
             (startupDue, d1) \<Rightarrow>
               let d2 = container_started cfg uid startupDue (foldl (dev_step S cfg) d1 (sg_start sg));
                   d3 = shutting_down ctx (foldl (dev_step S cfg) d2 (sg_serve sg));
                   d4 = begin_drain S (foldl (dev_step S cfg) d3 (sg_notice sg));
                   d5 = shutdown_complete (foldl (dev_step S cfg) d4 (sg_drain sg))
               in (None, d5)))"

subsection \<open>The marker\<close>

text \<open>
  What the code relies on in the health latch: a write sets the marker unless draining began, and from
  the drain on the marker is unhealthy for good.
\<close>

definition latch_contract :: "('h, 's) svc \<Rightarrow> ('h \<Rightarrow> bool) \<Rightarrow> bool" where
  "latch_contract S draining \<longleftrightarrow>
     (\<forall>h b. sv_healthy S (sv_Set S h b) = (b \<and> \<not> draining h) \<and> draining (sv_Set S h b) = draining h) \<and>
     (\<forall>h. draining (sv_BeginDrain S h) \<and> \<not> sv_healthy S (sv_BeginDrain S h))"

text \<open>What a run says about health: whether it says anything, and what.\<close>

definition run_signal :: "config \<Rightarrow> ('t, 'd) request \<Rightarrow> 't world \<Rightarrow> bool \<times> bool" where
  "run_signal cfg q w =
     (case runFclonesJob (q_env q) (q_ctx q) cfg (q_trigger q) w of
        ((did_run, err), _) \<Rightarrow> jobHealthSignal (ctx_Err (q_ctx q) (q_errAt q)) did_run err)"

lemma recordOutcome_health:
  "ds_health (recordOutcome S trig ce did_run err d) =
     (case jobHealthSignal ce did_run err of
        (set_it, healthy) \<Rightarrow> if set_it then sv_Set S (ds_health d) healthy else ds_health d)"
  by (auto simp: recordOutcome_def Let_def split: prod.splits option.splits)

lemma recordOutcome_stamp:
  "ds_stamp (recordOutcome S trig ce did_run err d) =
     (case jobHealthSignal ce did_run err of
        (set_it, healthy) \<Rightarrow>
          if set_it \<and> (trig = triggerStartup \<or> trig = triggerInterval)
          then snd (sv_Record S (ds_stamp d) healthy) else ds_stamp d)"
  by (auto simp: recordOutcome_def Let_def split: prod.splits option.splits)

lemma serve_health:
  "ds_health (serve S cfg d q) =
     (case run_signal cfg q (ds_world d) of
        (set_it, healthy) \<Rightarrow> if set_it then sv_Set S (ds_health d) healthy else ds_health d)"
  by (simp add: serve_def daemon_run_def run_signal_def recordOutcome_health Let_def split: prod.splits)

lemma serve_stamp:
  "ds_stamp (serve S cfg d q) =
     (case run_signal cfg q (ds_world d) of
        (set_it, healthy) \<Rightarrow>
          if set_it \<and> (q_trigger q = triggerStartup \<or> q_trigger q = triggerInterval)
          then snd (sv_Record S (ds_stamp d) healthy) else ds_stamp d)"
proof -
  obtain did_run err w where j: "runFclonesJob (q_env q) (q_ctx q) cfg (q_trigger q) (ds_world d) = ((did_run, err), w)"
    by (metis prod.exhaust)
  obtain si h where "jobHealthSignal (ctx_Err (q_ctx q) (q_errAt q)) did_run err = (si, h)" by fastforce
  then show ?thesis by (auto simp: serve_def daemon_run_def run_signal_def j recordOutcome_stamp Let_def)
qed

text \<open>When a run says something, exactly: not skipped, and not cut short by the end of its context.\<close>

lemma run_signal_exact:
  "run_signal cfg q w =
     (let r = runFclonesJob (q_env q) (q_ctx q) cfg (q_trigger q) w; err = snd (fst r) in
      if (fst (fst r) \<or> err \<noteq> None) \<and> \<not> done_by (q_ctx q) (q_errAt q) then (True, err = None)
      else (False, False))"
  using ctx_Err_done [of "q_ctx q" "q_errAt q"]
  by (auto simp: run_signal_def jobHealthSignal_def markerAction_def Let_def split: prod.splits)

text \<open>The signals of a sequence of runs.\<close>

fun signals :: "('h, 's) svc \<Rightarrow> config \<Rightarrow> ('t, 'h, 's) dstate \<Rightarrow> ('t, 'd) request list \<Rightarrow> (bool \<times> bool) list" where
  "signals S cfg d [] = []"
| "signals S cfg d (q # qs) = run_signal cfg q (ds_world d) # signals S cfg (serve S cfg d q) qs"

definition last_signal :: "bool \<Rightarrow> (bool \<times> bool) list \<Rightarrow> bool" where
  "last_signal m ss = foldl (\<lambda>m s. if fst s then snd s else m) m ss"

definition drained :: "('h, 's) svc \<Rightarrow> ('h \<Rightarrow> bool) \<Rightarrow> ('t, 'h, 's) dstate \<Rightarrow> bool" where
  "drained S draining d \<longleftrightarrow>
     (latch_contract S draining \<longrightarrow> draining (ds_health d) \<and> \<not> sv_healthy S (ds_health d))"

lemma dev_step_marker:
  "latch_contract S draining \<Longrightarrow> draining (ds_health (dev_step S cfg d e)) = draining (ds_health d) \<and>
     (draining (ds_health d) \<longrightarrow> \<not> sv_healthy S (ds_health d) \<longrightarrow> \<not> sv_healthy S (ds_health (dev_step S cfg d e)))"
  by (cases e) (auto simp: serve_health recordOutcome_health latch_contract_def split: prod.splits)

text \<open>A run is a job and the record of its outcome.\<close>

lemma ran_in_two:
  "runFclonesJob (q_env q) (q_ctx q) cfg (q_trigger q) (ds_world d) = ((did_run, err), w) \<Longrightarrow>
     dev_step S cfg d (Ran q) = dev_step S cfg (dev_step S cfg d (JobEnded q))
       (OutcomeRecorded (q_trigger q) (ctx_Err (q_ctx q) (q_errAt q)) did_run err)"
  by (simp add: serve_def daemon_run_def Let_def)

interpretation drained_state: stepper "dev_step S cfg" "drained S draining" for S cfg draining
  by unfold_locales (auto simp: drained_def dev_step_marker)

lemma job_unlocked: "\<not> w_locked w \<Longrightarrow> \<not> w_locked (snd (runFclonesJob E ctx cfg trig w))"
  using job_steps [of E ctx cfg trig w] by (auto simp: Let_def split: if_splits)

lemma record_unlocked:
  "w_locked (ds_world (recordOutcome S trig ce did_run err d)) = w_locked (ds_world d)"
  by (auto simp: recordOutcome_def Let_def split: prod.splits option.splits)

lemma serve_unlocked: "\<not> w_locked (ds_world d) \<Longrightarrow> \<not> w_locked (ds_world (serve S cfg d q))"
proof -
  assume "\<not> w_locked (ds_world d)"
  then have "\<not> w_locked (snd (runFclonesJob (q_env q) (q_ctx q) cfg (q_trigger q) (ds_world d)))"
    by (rule job_unlocked)
  then show ?thesis
    by (auto simp: serve_def daemon_run_def record_unlocked Let_def split: prod.splits)
qed

interpretation unlocked_state: stepper "serve S cfg" "\<lambda>d. \<not> w_locked (ds_world d)" for S cfg
  by unfold_locales (rule serve_unlocked)

lemma dev_step_unlocked: "\<not> w_locked (ds_world d) \<Longrightarrow> \<not> w_locked (ds_world (dev_step S cfg d e))"
  by (cases e) (auto simp: serve_unlocked job_unlocked record_unlocked tick_def)

lemma dev_step_stamp:
  "(\<forall>q. e = Ran q \<longrightarrow> q_trigger q \<notin> {triggerStartup, triggerInterval}) \<Longrightarrow>
     (\<forall>t ce r err. e = OutcomeRecorded t ce r err \<longrightarrow> t \<notin> {triggerStartup, triggerInterval}) \<Longrightarrow>
     ds_stamp (dev_step S cfg d e) = ds_stamp d"
  by (cases e) (auto simp: serve_stamp recordOutcome_stamp split: prod.splits)

lemma marker_runs:
  assumes "latch_contract S draining" "\<not> draining (ds_health d)"
  shows "sv_healthy S (ds_health (foldl (serve S cfg) d qs))
    = last_signal (sv_healthy S (ds_health d)) (signals S cfg d qs)"
  using assms(2)
proof (induction qs arbitrary: d)
  case (Cons q qs)
  have "\<not> draining (ds_health (serve S cfg d q))"
    using Cons.prems assms(1) by (auto simp: serve_health latch_contract_def split: prod.splits)
  with Cons.IH have "sv_healthy S (ds_health (foldl (serve S cfg) (serve S cfg d q) qs))
      = last_signal (sv_healthy S (ds_health (serve S cfg d q))) (signals S cfg (serve S cfg d q) qs)" .
  then show ?case
    using Cons.prems assms(1) by (auto simp: last_signal_def serve_health latch_contract_def split: prod.splits)
qed (simp add: last_signal_def)

text \<open>
  C9. The marker tells the last real outcome. While the daemon is not draining, the health marker after
  any sequence of runs is the result of the last one that ran to its end, or what it was before if none
  did: a lock skip and a run cut short by the shutdown leave it alone. No run leaves the lock behind.
\<close>

theorem marker_is_last_outcome:
  assumes "latch_contract S draining" "\<not> draining (ds_health d)" "\<not> w_locked (ds_world d)"
  shows "sv_healthy S (ds_health (foldl (serve S cfg) d qs))
      = last_signal (sv_healthy S (ds_health d)) (signals S cfg d qs) \<and>
    \<not> w_locked (ds_world (foldl (serve S cfg) d qs)) \<and>
    run_signal cfg q w =
      (let r = runFclonesJob (q_env q) (q_ctx q) cfg (q_trigger q) w; err = snd (fst r) in
       if (fst (fst r) \<or> err \<noteq> None) \<and> \<not> done_by (q_ctx q) (q_errAt q) then (True, err = None)
       else (False, False))"
  by (intro conjI, rule marker_runs [OF assms(1,2)], rule unlocked_state.run_inv [OF assms(3)],
      rule run_signal_exact)

text \<open>
  C31. A daemon that stops leaves an unhealthy marker, whatever happened before and whatever runs finish
  during the drain; it returns an error only when it could not bind its socket, and otherwise removes
  its socket.
\<close>

theorem daemon_ends_unhealthy:
  assumes "latch_contract S draining"
  shows "\<not> sv_healthy S (ds_health (snd (runDaemon S ctx cfg listenErr now uid sg d))) \<and>
    (fst (runDaemon S ctx cfg listenErr now uid sg d) = None \<longleftrightarrow> listenErr = None) \<and>
    w_fs (ds_world (snd (runDaemon S ctx cfg listenErr now uid sg d))) socketPath
      = (if listenErr = None then None else w_fs (ds_world d) socketPath)"
proof (cases listenErr)
  case None
  obtain due d1 where b: "daemon_boot S cfg now d = (due, d1)" by fastforce
  have "drained S draining (foldl (dev_step S cfg) (begin_drain S x) (sg_drain sg))" for x
    by (rule drained_state.run_inv) (use assms in \<open>simp add: drained_def latch_contract_def begin_drain_def\<close>)
  then show ?thesis using assms by (simp add: runDaemon_def None b Let_def drained_def shutdown_complete_def)
next
  case (Some e)
  then show ?thesis using assms by (simp add: runDaemon_def latch_contract_def)
qed

text \<open>
  The stamp on the cache volume is written by scheduled runs only: a startup or interval run that
  ran to its end records its result; any other run (triggered from outside, skipped, or interrupted)
  leaves the stamp as it was.
\<close>

theorem stamp_only_scheduled:
  "ds_stamp (serve S cfg d q) =
     (if fst (run_signal cfg q (ds_world d)) \<and> q_trigger q \<in> {''startup'', ''interval''}
      then snd (sv_Record S (ds_stamp d) (snd (run_signal cfg q (ds_world d)))) else ds_stamp d)"
  by (auto simp: serve_stamp triggerStartup_def triggerInterval_def split: prod.splits)

text \<open>
  The boot state: built-in mode starts healthy exactly when no startup scan is due and the last
  recorded scan succeeded, so a fresh failed record boots unhealthy without a scan; external mode
  starts healthy and never has a startup scan due.
\<close>

theorem boot_state:
  assumes "latch_contract S draining" "\<not> draining (ds_health d)" "Mode cfg \<noteq> modeOnce"
  shows "(let due = sv_Due S (ds_stamp d) (Interval cfg) now; r = daemon_boot S cfg now d in
     sv_healthy S (ds_health (snd r)) =
       (Mode cfg = modeExternal \<or> \<not> due \<and> rr_OK (sv_Last S (ds_stamp d))) \<and>
     fst r = (Mode cfg = modeBuiltin \<and> due) \<and> ds_stamp (snd r) = ds_stamp d)"
  using assms
  by (cases "Mode cfg") (auto simp: daemon_boot_def builtinBootState_def latch_contract_def Let_def)

text \<open>
  C32. The probe and the daemon read the same settings: for an accepted configuration the healthcheck has
  a deadline exactly in built-in mode with a positive timeout, and its lease is built from the
  interval and the timeout the daemon runs with.
\<close>

theorem probe_matches_config:
  assumes "snd (loadConfig E) = Inr cfg"
  shows "probeOptions E =
    (if Mode cfg = modeBuiltin \<and> 0 < PhaseTimeout cfg
     then Some \<lparr>le_Interval = Interval cfg, le_Cycles = 2, le_Timeout = PhaseTimeout cfg, le_Attempts = 2\<rparr>
     else None)"
proof -
  obtain mode iv where pi: "sched_ParseInterval E (env_Getenv E ''SCAN_INTERVAL'') defaultInterval = (mode, iv)"
    by fastforce
  have iv: "(Interval cfg, Mode cfg) = parseInterval E (env_Getenv E ''SCAN_INTERVAL'')"
    and to: "case env_DurationStrict E ''SCAN_TIMEOUT'' of
         Inr None \<Rightarrow> PhaseTimeout cfg = 12 * hour | Inr (Some d) \<Rightarrow> PhaseTimeout cfg = d | Inl _ \<Rightarrow> False"
    using assms by (simp_all add: load_iff split: sum.splits)
  have m: "Interval cfg = iv" "Mode cfg = (case mode of ModeExternal \<Rightarrow> modeExternal
      | ModeOnce \<Rightarrow> modeOnce | ModeInterval \<Rightarrow> modeBuiltin)"
    using iv by (cases mode; simp add: parseInterval_def pi)+
  show ?thesis
    using to by (cases mode) (auto simp: probeOptions_def pi m defaultScanTimeout_def split: sum.splits option.splits)
qed

subsection \<open>Across a restart\<close>

text \<open>
  What the code relies on in the stamp: a successful \<open>Record\<close> is what \<open>Last\<close> gives back, and a record
  holds its slot for one interval, whether the scan succeeded or not (\<open>scheduler.CountFailed\<close>).
\<close>

definition stamp_contract :: "('h, 's) svc \<Rightarrow> bool" where
  "stamp_contract S \<longleftrightarrow>
     (\<forall>s ok. fst (sv_Record S s ok) = None \<longrightarrow>
        rr_OK (sv_Last S (snd (sv_Record S s ok))) = ok \<and>
        (\<forall>i now. rr_Time (sv_Last S (snd (sv_Record S s ok))) \<le> now \<longrightarrow>
           sv_Due S (snd (sv_Record S s ok)) i now
             = (rr_Time (sv_Last S (snd (sv_Record S s ok))) + i \<le> now)))"

text \<open>
  And in \<open>Remaining\<close>: while no scan is due, what is left of the slot of the last record.
\<close>

definition remaining_contract :: "('h, 's) svc \<Rightarrow> bool" where
  "remaining_contract S \<longleftrightarrow>
     (\<forall>s i now. \<not> sv_Due S s i now \<longrightarrow> now + sv_Remaining S s i now = rr_Time (sv_Last S s) + i)"

text \<open>An event after which the stamp is as before: no scheduled run.\<close>

definition unscheduled :: "('t, 'd) devent \<Rightarrow> bool" where
  "unscheduled e \<longleftrightarrow>
     (\<forall>q. e = Ran q \<longrightarrow> q_trigger q \<notin> {triggerStartup, triggerInterval}) \<and>
     (\<forall>t ce r err. e = OutcomeRecorded t ce r err \<longrightarrow> t \<notin> {triggerStartup, triggerInterval})"

lemma unscheduled_stamp: "list_all unscheduled es \<Longrightarrow> ds_stamp (foldl (dev_step S cfg) d es) = ds_stamp d"
  by (induction es arbitrary: d) (simp_all add: dev_step_stamp unscheduled_def del: dev_step.simps)

lemma boot_builtin:
  assumes "latch_contract S draining" "\<not> draining (ds_health d)" "Mode cfg = modeBuiltin"
  shows "fst (daemon_boot S cfg now d) = sv_Due S (ds_stamp d) (Interval cfg) now"
    and "sv_healthy S (ds_health (snd (daemon_boot S cfg now d))) =
      (\<not> sv_Due S (ds_stamp d) (Interval cfg) now \<and> rr_OK (sv_Last S (ds_stamp d)))"
  using assms by (auto simp: daemon_boot_def builtinBootState_def latch_contract_def Let_def)

text \<open>
  C15. A restart neither repeats nor forgets a scan: once a scheduled run has ended and its record was
  written, whatever else happens before the process ends (external runs, refused ticks), the next life
  on the same volume within one interval of the record submits no startup scan and starts healthy
  exactly when that run succeeded, be it a success or a failure; from the end of the interval on it
  starts unhealthy with a startup scan due. The cadence goes on across the restart: without a startup scan
  the ticker fires first when one interval has passed since the recorded scan.
\<close>

theorem restart_remembers:
  assumes "latch_contract S draining" "stamp_contract S"
    and "q_trigger q \<in> {triggerStartup, triggerInterval}" "run_signal cfg q (ds_world d) = (True, ok)"
    and "fst (sv_Record S (ds_stamp d) ok) = None" "list_all unscheduled es"
    and "Mode cfg' = modeBuiltin" "\<not> draining (ds_health d')"
    and "ds_stamp d' = ds_stamp (foldl (dev_step S cfg) d (Ran q # es))"
    and "rr_Time (sv_Last S (ds_stamp d')) \<le> now"
  shows "(let boot = daemon_boot S cfg' now d';
              fresh = (now < rr_Time (sv_Last S (ds_stamp d')) + Interval cfg') in
      startTicker True (fst boot) n = (if fresh then [] else [''startup'']) @ replicate n ''interval'' \<and>
      sv_healthy S (ds_health (snd boot)) = (fresh \<and> ok) \<and>
      (remaining_contract S \<longrightarrow> fresh \<longrightarrow>
        now + lo_FirstDelay (tickerOptions S (ds_stamp d') (Interval cfg') now)
          = rr_Time (sv_Last S (ds_stamp d')) + Interval cfg'))"
proof -
  have s: "ds_stamp d' = snd (sv_Record S (ds_stamp d) ok)"
    using assms(3,4,6,9) by (auto simp: unscheduled_stamp serve_stamp)
  have l: "rr_OK (sv_Last S (ds_stamp d')) = ok"
    "sv_Due S (ds_stamp d') (Interval cfg') now = (rr_Time (sv_Last S (ds_stamp d')) + Interval cfg' \<le> now)"
    using assms(2,5,10) unfolding s stamp_contract_def by blast+
  show ?thesis
    using boot_builtin [OF assms(1,8,7), of now] l
    by (auto simp: Let_def startTicker_def triggerStartup_def triggerInterval_def not_le tickerOptions_def
        remaining_contract_def)
qed

subsection \<open>A concrete daemon\<close>

definition demo_svc :: "(bool \<times> bool, RunRecord) svc" where
  "demo_svc = \<lparr>sv_Set = (\<lambda>(dr, h) b. (dr, b \<and> \<not> dr)), sv_BeginDrain = (\<lambda>_. (True, False)), sv_healthy = snd,
     sv_Record = (\<lambda>s ok. (None, s\<lparr>rr_OK := ok\<rparr>)), sv_Due = (\<lambda>s i now. i \<le> now - rr_Time s), sv_Last = id,
     sv_Remaining = (\<lambda>s i now. max 0 (rr_Time s + i - now))\<rparr>"

lemma demo_contract: "latch_contract demo_svc fst"
  by (auto simp: latch_contract_def demo_svc_def)

definition demo_state :: "(bytes list, bool \<times> bool, RunRecord) dstate" where
  "demo_state = \<lparr>ds_world = demo_world, ds_health = (False, False), ds_stamp = \<lparr>rr_Time = 0, rr_OK = True\<rparr>\<rparr>"

definition busy_request :: "(bytes list, doc) request" where
  "busy_request = \<lparr>q_trigger = ''interval'', q_ctx = live_ctx, q_env = demo_job\<lparr>je_TryLock := Inr False\<rparr>,
     q_errAt = 5, q_dur = 1\<rparr>"

definition broken_request :: "(bytes list, doc) request" where
  "broken_request = busy_request\<lparr>q_env := demo_job\<lparr>je_TryLock := Inl ''io''\<rparr>\<rparr>"

lemma demo_signals:
  "run_signal demo_cfg busy_request w = (False, False)" "run_signal demo_cfg broken_request w = (True, False)"
  by (simp_all add: run_signal_def busy_request_def broken_request_def runFclonesJob_def jobHealthSignal_def
      markerAction_def ctx_Err_def live_ctx_def)

theorem marker_is_last_outcome_witness:
  "\<not> sv_healthy demo_svc (ds_health (foldl (serve demo_svc demo_cfg)
      (demo_state\<lparr>ds_health := (False, True)\<rparr>) [broken_request, busy_request])) \<and>
   sv_healthy demo_svc (ds_health (foldl (serve demo_svc demo_cfg)
      (demo_state\<lparr>ds_health := (False, True)\<rparr>) [busy_request]))"
proof -
  let ?d = "demo_state\<lparr>ds_health := (False, True)\<rparr>"
  have "\<not> fst (ds_health ?d)" "\<not> w_locked (ds_world ?d)" by (simp_all add: demo_state_def demo_world_def)
  note m = marker_is_last_outcome [OF demo_contract this, THEN conjunct1]
  have h: "sv_healthy demo_svc x = snd x" for x by (simp add: demo_svc_def)
  show ?thesis unfolding m by (simp add: last_signal_def demo_signals h)
qed

theorem daemon_ends_unhealthy_witness:
  "\<not> sv_healthy demo_svc (ds_health (snd (runDaemon demo_svc live_ctx (demo_cfg\<lparr>Mode := modeExternal\<rparr>) None 0 1000
      \<lparr>sg_start = [], sg_serve = [Ran broken_request], sg_notice = [Queued], sg_drain = [Ran busy_request]\<rparr>
      demo_state)))"
  using daemon_ends_unhealthy [OF demo_contract, of live_ctx "demo_cfg\<lparr>Mode := modeExternal\<rparr>" None] by blast

theorem boot_state_witness:
  "sv_healthy demo_svc (ds_health (snd (daemon_boot demo_svc (demo_cfg\<lparr>Mode := modeBuiltin\<rparr>) 1 demo_state)))"
  using boot_state [OF demo_contract, of demo_state "demo_cfg\<lparr>Mode := modeBuiltin\<rparr>" 1]
  by (simp add: demo_state_def demo_cfg_def Let_def) (simp add: demo_svc_def)

theorem probe_matches_config_witness:
  "probeOptions demo_env = Some \<lparr>le_Interval = 3 * hour, le_Cycles = 2, le_Timeout = 12 * hour, le_Attempts = 2\<rparr>"
  using probe_matches_config [OF demo_loads] by simp

lemma demo_stamp: "stamp_contract demo_svc"
  by (auto simp: stamp_contract_def demo_svc_def)

lemma demo_remaining: "remaining_contract demo_svc"
  by (auto simp: remaining_contract_def demo_svc_def)

theorem restart_remembers_witness:
  "\<exists>d' :: (bytes list, bool \<times> bool, RunRecord) dstate. ds_stamp d' = \<lparr>rr_Time = 0, rr_OK = False\<rparr> \<and>
     \<not> sv_healthy demo_svc (ds_health (snd (daemon_boot demo_svc (demo_cfg\<lparr>Mode := modeBuiltin\<rparr>) 1 d'))) \<and>
     startTicker True (fst (daemon_boot demo_svc (demo_cfg\<lparr>Mode := modeBuiltin\<rparr>) 1 d')) 1 = [''interval''] \<and>
     1 + lo_FirstDelay (tickerOptions demo_svc (ds_stamp d') hour 1) = hour"
proof -
  let ?d = "foldl (dev_step demo_svc demo_cfg) demo_state (Ran broken_request # [Queued])"
  define d' where "d' = ?d\<lparr>ds_health := (False, False)\<rparr>"
  have q: "q_trigger broken_request \<in> {triggerStartup, triggerInterval}"
    by (simp add: broken_request_def busy_request_def triggerInterval_def)
  have r: "run_signal demo_cfg broken_request (ds_world demo_state) = (True, False)" by (rule demo_signals)
  have st: "ds_stamp d' = \<lparr>rr_Time = 0, rr_OK = False\<rparr>"
  proof -
    have "ds_stamp d' = snd (sv_Record demo_svc (ds_stamp demo_state) False)"
      using r q by (auto simp: serve_stamp d'_def)
    also have "\<dots> = \<lparr>rr_Time = 0, rr_OK = False\<rparr>" by (simp add: demo_svc_def demo_state_def)
    finally show ?thesis .
  qed
  have f: "fst (sv_Record demo_svc (ds_stamp demo_state) False) = None" by (simp add: demo_svc_def)
  have u: "list_all unscheduled [Queued :: (bytes list, doc) devent]" by (simp add: unscheduled_def)
  have m: "Mode (demo_cfg\<lparr>Mode := modeBuiltin\<rparr>) = modeBuiltin" "\<not> fst (ds_health d')" "ds_stamp d' = ds_stamp ?d"
    by (simp_all add: d'_def)
  have t: "rr_Time (sv_Last demo_svc (ds_stamp d')) \<le> 1" unfolding st by (simp add: demo_svc_def)
  have i: "1 < rr_Time (sv_Last demo_svc (ds_stamp d')) + Interval (demo_cfg\<lparr>Mode := modeBuiltin\<rparr>)"
    unfolding st by (simp add: demo_svc_def demo_cfg_def)
  have "\<not> sv_healthy demo_svc (ds_health (snd (daemon_boot demo_svc (demo_cfg\<lparr>Mode := modeBuiltin\<rparr>) 1 d'))) \<and>
     startTicker True (fst (daemon_boot demo_svc (demo_cfg\<lparr>Mode := modeBuiltin\<rparr>) 1 d')) 1 = [''interval''] \<and>
     1 + lo_FirstDelay (tickerOptions demo_svc (ds_stamp d') (Interval (demo_cfg\<lparr>Mode := modeBuiltin\<rparr>)) 1)
       = rr_Time (sv_Last demo_svc (ds_stamp d')) + Interval (demo_cfg\<lparr>Mode := modeBuiltin\<rparr>)"
    using restart_remembers [OF demo_contract demo_stamp q r f u m(1,2,3) t, of 1] i demo_remaining by (simp add: Let_def)
  moreover have "rr_Time (sv_Last demo_svc (ds_stamp d')) = 0" unfolding st by (simp add: demo_svc_def)
  moreover have "Interval (demo_cfg\<lparr>Mode := modeBuiltin\<rparr>) = hour" by (simp add: demo_cfg_def)
  ultimately show ?thesis using st by (intro exI [of _ d']) simp
qed

end
