(* ===== verification/Wrapper.thy ===== *)
theory Wrapper
  imports Daemon
begin

text \<open>
  \<open>client.go\<close> and \<open>main.go\<close>: the \<open>scan\<close> subcommand, the one-shot run, the composition root and the
  dispatch, down to the exit code of the process.
\<close>

subsection \<open>client.go\<close>

text \<open>
  What \<open>trigger.Submit\<close> reports: the final event, or an error of which \<open>errors.Is\<close> can be asked three
  things. \<open>SubmitEvent\<close> is what its callback sees on the way.
\<close>

record submit_error =
  se_unreachable :: bool
  se_send :: bool
  se_canceled :: bool
  se_text :: syserr

datatype submit_event = EventQueued | EventStarted | EventOther

record Event =
  ev_OK :: bool
  ev_Reason :: bytes
  ev_DurationMs :: int

fun event_lines :: "submit_event list \<Rightarrow> logline list" where
  "event_lines [] = []"
| "event_lines (EventQueued # es) = logl Info ''triggered scan accepted'' [] # event_lines es"
| "event_lines (EventStarted # es) =
     logl Info ''triggered scan started'' [(''logs'', VStr ''full scan output is on the container log stream'')]
       # event_lines es"
| "event_lines (EventOther # es) = event_lines es"

definition finishResult :: "Event \<Rightarrow> logline list \<times> int" where
  "finishResult ev =
     (if ev_OK ev
      then ([logl Info ''triggered scan complete''
               ([(''duration_ms'', VInt (ev_DurationMs ev))] @
                (if ev_Reason ev \<noteq> [] then [(''reason'', VStr (ev_Reason ev))] else []))], 0)
      else let reason = (if ev_Reason ev = [] then ''the run failed (see the container log stream)''
                         else ev_Reason ev) in
        ([logl Error ''triggered scan failed''
            [(''duration_ms'', VInt (ev_DurationMs ev)), (''reason'', VStr reason)]], 1))"

definition runClient ::
  "envp \<Rightarrow> bytes \<Rightarrow> submit_event list \<Rightarrow> submit_error + Event \<Rightarrow> logline list \<times> int" where
  "runClient E path events result =
     (let pre = fst (setupLogger E) @ event_lines events in
      case result of
        Inl e \<Rightarrow>
          let err = (''error'', VErr (ErrSys (se_text e))) in
          if se_unreachable e
          then (pre @ [logl Error ''cannot reach the scheduler daemon''
                  [(''path'', VStr path), err,
                   (''hint'', VStr ''the daemon (PID 1) owns all runs; check the container is up and this exec runs as the container's user (the socket is owner-only)'')]], 1)
          else if se_send e then (pre @ [logl Error ''cannot send scan request'' [err]], 1)
          else if se_canceled e
          then (pre @ [logl Warn ''interrupted while waiting for the scan; it continues in the daemon'' []], 1)
          else (pre @ [logl Error ''connection lost before the run completed (daemon stopped?)'' [err]], 1)
      | Inr ev \<Rightarrow> (case finishResult ev of (ls, code) \<Rightarrow> (pre @ ls, code)))"

subsection \<open>main.go\<close>

text \<open>What the startup and one run are told by their environment.\<close>

record ('t, 'd) startenv =
  st_env :: envp
  st_probe_fs :: probe_fs
  st_now :: instant
  st_probeSelect :: "instant \<times> bool"
  st_probeDone :: "instant option"
  st_uid :: int
  st_sweepLock :: "syserr + bool"
  st_removeErr :: "bytes \<Rightarrow> syserr option"
  st_glob :: "bytes list option"
  st_job :: "('t, 'd) jobenv"
  st_errAt :: "instant \<times> instant"
  st_listenErr :: "syserr option"
  st_segments :: "('t, 'd) segments"

text \<open>
  \<open>bootstrap\<close>: the logger, the settings, the cache directory. The check of the directory always returns
  under its ten-second deadline, so \<open>None\<close> below is never taken.
\<close>

definition bootstrap :: "('t, 'd) startenv \<Rightarrow> context_t \<Rightarrow> config logged" where
  "bootstrap st ctx =
     log_bind (fst (setupLogger (st_env st)), Inr ()) (\<lambda>_.
     log_bind (loadConfig (st_env st)) (\<lambda>cfg.
       case verifyCacheDir (st_probe_fs st) ctx (st_now st) (st_probeSelect st) (st_probeDone st) of
         None \<Rightarrow> ([], Inl (ErrVerifyTimeout (10 * second)))
       | Some (ls, Inl e) \<Rightarrow>
           (ls @ [logl Error ''cache directory verification failed''
                    [(''path'', VStr cacheDir), (''uid'', VInt (st_uid st)), outcome_tag ''cache_error'',
                     (''error'', VErr e)]], Inl e)
       | Some (ls, Inr _) \<Rightarrow> (ls, Inr cfg)))"

text \<open>\<open>runOnce\<close>: the marker is written through the operation \<open>set\<close>; the two samples of \<open>ctx.Err()\<close> are
  taken for the marker and for the classification.\<close>

definition runOnce ::
  "('h \<Rightarrow> bool \<Rightarrow> 'h) \<Rightarrow> ('t, 'd) jobenv \<Rightarrow> context_t \<Rightarrow> config \<Rightarrow> int \<Rightarrow> instant \<times> instant
     \<Rightarrow> 'h \<times> 't world \<Rightarrow> goerr option \<times> 'h \<times> 't world" where
  "runOnce set_m E ctx cfg uid ts hw =
     (let h0 = set_m (fst hw) False;
          w0 = wlog [] Info ''container started (run once)''
                 [(''uid'', VInt uid), (''mode'', VStr (runMode_String (Mode cfg))),
                  (''target'', VStr (ScanPath cfg)), (''action'', VStr (action_String (Action cfg))),
                  (''phase_timeout'', VDur (PhaseTimeout cfg))] (snd hw) in
      case runFclonesJob E ctx cfg ''once'' w0 of
        ((did_run, err), w1) \<Rightarrow>
          let sh = jobHealthSignal (ctx_Err ctx (fst ts)) did_run err;
              h1 = (if fst sh then set_m h0 (snd sh) else h0) in
          (case classifyRunOnceOutcome did_run err (ctx_Err ctx (snd ts)) of
             runOnceFailed \<Rightarrow> (err, h1, w1)
           | runOnceSkipped \<Rightarrow>
               (Some ErrRunOnceSkipped, set_m h1 False,
                wlog [] Warn ''run-once skipped: another process holds the scan lock; no scan ran''
                  [outcome_tag ''skipped'', (''lock'', VStr lockFile)] w1)
           | runOnceInterrupted \<Rightarrow>
               (Some (ErrRunOnceInterrupted (c_cause ctx)), h1,
                wlog [] Warn ''run-once interrupted before completion; batch run failed''
                  [outcome_tag ''shutdown'', (''cause'', VErr (c_cause ctx))] w1)
           | runOnceOK \<Rightarrow> (None, h1, wlog [] Info ''run once complete'' [outcome_tag ''success''] w1)))"

text \<open>
  \<open>run\<close>: the state is the marker, the stamp and the world. \<open>parent\<close> is the context it is called with, under
  which it bootstraps; the signals are caught only after the sweep, so \<open>ctx\<close>, the parent ended by a signal,
  is what the modes run under. \<open>NewLatch\<close> wraps the marker, so both modes write the same state; the
  deferred cleanup of the marker runs after everything.
\<close>

definition run_main ::
  "('h, 's) svc \<Rightarrow> ('h \<Rightarrow> 'h) \<Rightarrow> ('t, 'd) startenv \<Rightarrow> context_t \<Rightarrow> context_t \<Rightarrow> ('t, 'h, 's) dstate
     \<Rightarrow> goerr option \<times> ('t, 'h, 's) dstate" where
  "run_main S cleanup st parent ctx d =
     (let body =
        (case bootstrap st parent of
           (ls, Inl e) \<Rightarrow> (Some e, d\<lparr>ds_world := put_logs ls (ds_world d), ds_health := sv_Set S (ds_health d) False\<rparr>)
         | (ls, Inr cfg) \<Rightarrow>
             let w = cleanStaleReports (st_sweepLock st) (st_removeErr st) (st_glob st) (put_logs ls (ds_world d));
                 d1 = d\<lparr>ds_world := w\<rparr> in
             (case Mode cfg of
                modeOnce \<Rightarrow>
                  (case runOnce (sv_Set S) (st_job st) ctx cfg (st_uid st) (st_errAt st) (ds_health d1, ds_world d1) of
                     (err, h, w') \<Rightarrow> (err, d1\<lparr>ds_health := h, ds_world := w'\<rparr>))
              | _ \<Rightarrow> runDaemon S ctx cfg (st_listenErr st) (st_now st) (st_uid st) (st_segments st) d1))
      in (fst body, (snd body)\<lparr>ds_health := cleanup (ds_health (snd body))\<rparr>))"

text \<open>
  \<open>main\<close> and \<open>dispatch\<close> on the arguments after the program name: what they log themselves and the exit
  code, given the error of \<open>run\<close> and the code of \<open>runClient\<close>. The probe exits by itself, with the code
  \<open>probe\<close> gives for its options.
\<close>

definition dispatch :: "envp \<Rightarrow> bytes list \<Rightarrow> goerr option \<Rightarrow> int \<Rightarrow> logline list \<times> int" where
  "dispatch E argv run_err client_code =
     (let cmd = (case argv of a # _ \<Rightarrow> a | [] \<Rightarrow> ''daemon'') in
      if cmd = ''daemon'' then ([], if run_err \<noteq> None then 1 else 0)
      else if cmd = ''scan'' then ([], client_code)
      else (fst (setupLogger E) @ [logl Error ''unknown subcommand''
              [(''command'', VStr cmd), outcome_tag ''bad_subcommand'', (''valid'', VStr ''scan, health'')]], 2))"

definition main_exit ::
  "(Lease option \<Rightarrow> int) \<Rightarrow> envp \<Rightarrow> bytes list \<Rightarrow> goerr option \<Rightarrow> int \<Rightarrow> logline list \<times> int" where
  "main_exit probe E argv run_err client_code =
     (if argv \<noteq> [] \<and> hd argv = ''health'' then ([], probe (probeOptions E))
      else dispatch E argv run_err client_code)"

subsection \<open>Exit codes\<close>

text \<open>
  C10. The exit code of a one-shot run is its result, whatever happens: no error is returned exactly when a
  scan ran, the job returned no error, and the context was still alive at the second look at it; a failed
  job, a skip and an interruption each return their own error. The health marker says whether a scan ran
  and succeeded with the context alive at the first look. So an exit without error always leaves a healthy
  marker, and the two can disagree only when the context ends between the two looks.
\<close>

theorem run_once_exact:
  assumes "latch_contract S draining" "\<not> draining h"
    and "runOnce (sv_Set S) E ctx cfg uid (t1, t2) (h, w) = (r, h', w')"
  shows "let w0 = wlog [] Info ''container started (run once)''
                 [(''uid'', VInt uid), (''mode'', VStr (runMode_String (Mode cfg))),
                  (''target'', VStr (ScanPath cfg)), (''action'', VStr (action_String (Action cfg))),
                  (''phase_timeout'', VDur (PhaseTimeout cfg))] w;
             err = snd (fst (runFclonesJob E ctx cfg ''once'' w0));
             skipped = (je_TryLock E = Inr False) in
    r = (if err \<noteq> None then err else if skipped then Some ErrRunOnceSkipped
         else if done_by ctx t2 then Some (ErrRunOnceInterrupted (c_cause ctx)) else None) \<and>
    (r = None \<longleftrightarrow> \<not> skipped \<and> err = None \<and> \<not> done_by ctx t2) \<and>
    (sv_healthy S h' \<longleftrightarrow> \<not> skipped \<and> err = None \<and> \<not> done_by ctx t1) \<and>
    (t1 \<le> t2 \<longrightarrow> r = None \<longrightarrow> sv_healthy S h') \<and>
    (done_by ctx t1 = done_by ctx t2 \<longrightarrow> sv_healthy S h' = (r = None))"
proof -
  define w0 where "w0 = wlog [] Info ''container started (run once)''
                 [(''uid'', VInt uid), (''mode'', VStr (runMode_String (Mode cfg))),
                  (''target'', VStr (ScanPath cfg)), (''action'', VStr (action_String (Action cfg))),
                  (''phase_timeout'', VDur (PhaseTimeout cfg))] w"
  obtain did_run err w1 where j: "runFclonesJob E ctx cfg ''once'' w0 = ((did_run, err), w1)"
    by (metis prod.exhaust)
  have d: "did_run \<longleftrightarrow> je_TryLock E \<noteq> Inr False"
    using job_steps [of E ctx cfg "''once''" w0] by (auto simp: j Let_def)
  have skip: "\<not> did_run \<Longrightarrow> err = None" using j d by (auto simp: runFclonesJob_def)
  have e: "ctx_Err ctx t = None \<longleftrightarrow> \<not> done_by ctx t" for t using ctx_Err_done [of ctx t] by blast
  have eq: "(r, h', w') = (let h0 = sv_Set S h False;
          sh = jobHealthSignal (ctx_Err ctx t1) did_run err;
          h1 = (if fst sh then sv_Set S h0 (snd sh) else h0) in
          (case classifyRunOnceOutcome did_run err (ctx_Err ctx t2) of
             runOnceFailed \<Rightarrow> (err, h1, w1)
           | runOnceSkipped \<Rightarrow>
               (Some ErrRunOnceSkipped, sv_Set S h1 False,
                wlog [] Warn ''run-once skipped: another process holds the scan lock; no scan ran''
                  [outcome_tag ''skipped'', (''lock'', VStr lockFile)] w1)
           | runOnceInterrupted \<Rightarrow>
               (Some (ErrRunOnceInterrupted (c_cause ctx)), h1,
                wlog [] Warn ''run-once interrupted before completion; batch run failed''
                  [outcome_tag ''shutdown'', (''cause'', VErr (c_cause ctx))] w1)
           | runOnceOK \<Rightarrow> (None, h1, wlog [] Info ''run once complete'' [outcome_tag ''success''] w1)))"
    using assms(3) unfolding runOnce_def Let_def fst_conv snd_conv w0_def [symmetric] j prod.case by simp
  have l: "sv_healthy S (sv_Set S x b) = (b \<and> \<not> draining x)" "draining (sv_Set S x b) = draining x" for x b
    using assms(1) by (auto simp: latch_contract_def)
  have "r = (if err \<noteq> None then err else if \<not> did_run then Some ErrRunOnceSkipped
         else if done_by ctx t2 then Some (ErrRunOnceInterrupted (c_cause ctx)) else None) \<and>
      (sv_healthy S h' \<longleftrightarrow> did_run \<and> err = None \<and> \<not> done_by ctx t1)"
    using eq e assms(2) skip
    by (cases "err = None"; cases did_run; cases "done_by ctx t1"; cases "done_by ctx t2")
      (simp_all add: classifyRunOnceOutcome_def jobHealthSignal_def markerAction_def l Let_def)
  then show ?thesis
    using d done_by_mono [of ctx t1 t2] unfolding w0_def [symmetric] Let_def j fst_conv snd_conv by auto
qed

text \<open>
  The exit code of the \<open>scan\<close> client is 0 exactly when the daemon's final event says the run was fine,
  and 1 otherwise; a failure ends with a line of at least warning level.
\<close>

theorem client_exit:
  "(case runClient E path events result of
      (ls, code) \<Rightarrow>
        (code = 0 \<or> code = 1) \<and>
        (code = 0) = (case result of Inr ev \<Rightarrow> ev_OK ev | Inl _ \<Rightarrow> False) \<and>
        (code = 0 \<or> (ls \<noteq> [] \<and> Warn \<le> l_level (last ls))))"
  by (auto simp: runClient_def finishResult_def Let_def less_eq_level_def split: sum.splits prod.splits)

subsection \<open>Startup\<close>

lemma setup_quiet: "at_level Error (fst (setupLogger E)) = []"
  by (auto simp: setupLogger_def Let_def split: option.splits)

lemma verify_some: "verifyCacheDir F ctx now sel fin \<noteq> None"
  by (auto simp: verifyCacheDir_def verifyDir_def verifyDirWithProbe_def with_timeout_def Let_def
      split: option.splits prod.splits)

lemma verify_levels:
  "verifyCacheDir F ctx now sel fin = Some (ls, r) \<Longrightarrow> at_level Error ls = []"
  by (auto simp: verifyCacheDir_def split: option.splits)

text \<open>
  C33. Every startup failure is logged exactly once, as \<open>config_error\<close> or \<open>cache_error\<close>; a startup that
  succeeds logs no error, has an accepted configuration, and has seen the cache directory writable.
\<close>

theorem bootstrap_exact:
  "(case bootstrap st ctx of
      (ls, Inl e) \<Rightarrow>
        (\<exists>l. at_level Error ls = [l] \<and>
           (attr l ''outcome'' = Some (VStr ''config_error'') \<or> attr l ''outcome'' = Some (VStr ''cache_error'')))
    | (ls, Inr cfg) \<Rightarrow>
        at_level Error ls = [] \<and> snd (loadConfig (st_env st)) = Inr cfg \<and>
        fs_MkdirAll (st_probe_fs st) cacheDir = None \<and> fs_Create (st_probe_fs st) (cacheDir @ ''/.write_test'') = None)"
proof (cases "snd (loadConfig (st_env st))")
  case (Inl e)
  then obtain ls where lc: "loadConfig (st_env st) = (ls, Inl e)" by (metis prod.collapse)
  have "one_error ''config_error'' (loadConfig (st_env st))"
    using load_logs by blast
  then show ?thesis
    using setup_quiet [of "st_env st"] by (auto simp: bootstrap_def lc one_error_def)
next
  case (Inr cfg)
  then obtain ls where lc: "loadConfig (st_env st) = (ls, Inr cfg)" by (metis prod.collapse)
  have q: "at_level Error ls = []"
    using load_logs [of "st_env st"] by (simp add: lc one_error_def)
  obtain vs r where v: "verifyCacheDir (st_probe_fs st) ctx (st_now st) (st_probeSelect st) (st_probeDone st) = Some (vs, r)"
    using verify_some by (metis not_None_eq prod.exhaust)
  have vq: "at_level Error vs = []" using verify_levels [OF v] .
  show ?thesis
  proof (cases r)
    case (Inl e)
    then show ?thesis
      using setup_quiet [of "st_env st"] q vq
      by (auto simp: bootstrap_def lc v attr_def outcome_tag_def)
  next
    case r: (Inr u)
    have "writeProbe (st_probe_fs st) cacheDir = None"
      using v r by (auto simp: verifyCacheDir_def verifyDir_def verifyDirWithProbe_def Let_def
          split: option.splits prod.splits if_splits)
    then have "fs_MkdirAll (st_probe_fs st) cacheDir = None \<and> fs_Create (st_probe_fs st) (cacheDir @ ''/.write_test'') = None"
      by (auto simp: writeProbe_def split: option.splits)
    then show ?thesis
      using setup_quiet [of "st_env st"] q vq r Inr by (auto simp: bootstrap_def lc v)
  qed
qed

theorem run_once_exact_witness:
  "\<exists>r h' w'. runOnce (sv_Set demo_svc) (demo_job\<lparr>je_TryLock := Inr False\<rparr>) live_ctx demo_cfg 0 (5, 5)
       ((False, False), demo_world) = (r, h', w') \<and> r = Some ErrRunOnceSkipped \<and> \<not> sv_healthy demo_svc h'"
proof -
  obtain r h' w' where o: "runOnce (sv_Set demo_svc) (demo_job\<lparr>je_TryLock := Inr False\<rparr>) live_ctx demo_cfg 0 (5, 5)
       ((False, False), demo_world) = (r, h', w')" by (metis prod.exhaust)
  have d: "\<not> fst (False, False)" by simp
  have "snd (fst (runFclonesJob (demo_job\<lparr>je_TryLock := Inr False\<rparr>) live_ctx demo_cfg ''once'' w)) = None" for w
    by (simp add: runFclonesJob_def)
  with run_once_exact [OF demo_contract d o] o show ?thesis by (simp add: Let_def)
qed

subsection \<open>A triggered scan from end to end\<close>

text \<open>
  What the code relies on in the trigger library: the final event a client gets holds the verdict and the
  reason of the outcome that \<open>run\<close> returned for it.
\<close>

definition carries :: "Outcome \<Rightarrow> Event \<Rightarrow> bool" where
  "carries r ev \<longleftrightarrow> ev_OK ev = o_OK r \<and> ev_Reason ev = o_Reason r"

lemma daemon_run_outcome:
  "fst (daemon_run S cfg q d) =
     (let job = runFclonesJob (q_env q) (q_ctx q) cfg (q_trigger q) (ds_world d) in
      \<lparr>o_OK = (snd (fst job) = None), o_Duration = q_dur q,
       o_Reason = (if je_TryLock (q_env q) = Inr False
                   then ''skipped: scan lock held by another process sharing /cache'' else [])\<rparr>)"
proof -
  obtain did_run err w where j: "runFclonesJob (q_env q) (q_ctx q) cfg (q_trigger q) (ds_world d) = ((did_run, err), w)"
    by (metis prod.exhaust)
  have "did_run \<longleftrightarrow> je_TryLock (q_env q) \<noteq> Inr False"
    using job_steps [of "q_env q" "q_ctx q" cfg "q_trigger q" "ds_world d"] by (auto simp: j Let_def)
  moreover have "je_TryLock (q_env q) = Inr False \<Longrightarrow> err = None"
    using j by (auto simp: runFclonesJob_def)
  ultimately show ?thesis by (auto simp: daemon_run_def run_outcome_def j Let_def)
qed

definition client_line :: "Event \<Rightarrow> goerr option \<Rightarrow> bool \<Rightarrow> logline" where
  "client_line ev err skipped =
     (if err = None
      then logl Info ''triggered scan complete'' ((''duration_ms'', VInt (ev_DurationMs ev)) #
             (if skipped then [(''reason'', VStr ''skipped: scan lock held by another process sharing /cache'')] else []))
      else logl Error ''triggered scan failed''
             [(''duration_ms'', VInt (ev_DurationMs ev)),
              (''reason'', VStr ''the run failed (see the container log stream)'')])"

text \<open>
  C16. A triggered scan from end to end: when the final event carries the outcome of the daemon's run, the
  \<open>scan\<close> command exits 0 exactly when the job returned no error, and 1 otherwise; its last line says
  so, and names the skip when the lock was held elsewhere. Without a final event (no daemon, a lost or
  interrupted connection) it exits 1 with a line of at least warning level.
\<close>

theorem triggered_scan:
  assumes "carries (fst (daemon_run S cfg q d)) ev"
  shows "(let job = runFclonesJob (q_env q) (q_ctx q) cfg (q_trigger q) (ds_world d);
        err = snd (fst job);
        client = runClient E path events (Inr ev) in
      snd client = (if err = None then 0 else 1) \<and>
      last (fst client) = client_line ev err (je_TryLock (q_env q) = Inr False)) \<and>
   (let lost = runClient E path events (Inl e) in
      snd lost = 1 \<and> Warn \<le> l_level (last (fst lost)))"
proof -
  have skip: "je_TryLock (q_env q) = Inr False \<Longrightarrow>
      snd (fst (runFclonesJob (q_env q) (q_ctx q) cfg (q_trigger q) (ds_world d))) = None"
    by (simp add: runFclonesJob_def)
  show ?thesis
    using skip assms
    by (auto simp: Let_def daemon_run_outcome carries_def runClient_def finishResult_def client_line_def
        less_eq_level_def split: prod.splits)
qed

theorem triggered_scan_witness:
  "snd (runClient demo_env socketPath [EventQueued] (Inr \<lparr>ev_OK = False, ev_Reason = [], ev_DurationMs = 7\<rparr>)) = 1"
proof -
  have "snd (fst (runFclonesJob (q_env broken_request) (q_ctx broken_request) demo_cfg (q_trigger broken_request)
      (ds_world demo_state))) \<noteq> None" by (simp add: broken_request_def runFclonesJob_def)
  moreover from this have "carries (fst (daemon_run demo_svc demo_cfg broken_request demo_state))
      \<lparr>ev_OK = False, ev_Reason = [], ev_DurationMs = 7\<rparr>"
    by (simp add: carries_def daemon_run_outcome Let_def) (simp add: broken_request_def)
  ultimately show ?thesis
    using triggered_scan [of demo_svc demo_cfg broken_request demo_state _ demo_env socketPath "[EventQueued]"]
    by (simp add: Let_def)
qed

text \<open>
  A scan that the daemon's shutdown cuts short is reported as a success: the run counts as neither
  healthy nor unhealthy (marker and stamp stay as they were), but its outcome is OK without a
  reason, so the waiting \<open>scan\<close> command exits 0 with \<open>triggered scan complete\<close> although no scan completed.
\<close>

theorem interrupted_scan_exits_ok:
  assumes "je_TryLock (q_env q) = Inr True" "buildScanArgs cfg = Inr scan" "je_CreateTemp (q_env q) = Inr path"
    and "cr_err (je_newCmd (q_env q) (phaseContext (q_ctx q) (PhaseTimeout cfg) (pc_ctx (je_scanClock (q_env q)))) scan [])
      = Some e"
    and "pc_samples (je_scanClock (q_env q)) = (t1, t2, t3)" "done_by (q_ctx q) t2" "t2 \<le> t3" "t3 \<le> q_errAt q"
    and "carries (fst (daemon_run S cfg q d)) ev"
  shows "fst (daemon_run S cfg q d) = \<lparr>o_OK = True, o_Duration = q_dur q, o_Reason = []\<rparr> \<and>
    ds_health (snd (daemon_run S cfg q d)) = ds_health d \<and> ds_stamp (snd (daemon_run S cfg q d)) = ds_stamp d \<and>
    snd (runClient E sock events (Inr ev)) = 0"
proof -
  have dn: "done_by (q_ctx q) t3" "done_by (q_ctx q) (q_errAt q)"
    using done_by_mono assms(6-8) by blast+
  have j: "fst (runFclonesJob (q_env q) (q_ctx q) cfg (q_trigger q) w) = (True, None)" for w
    using failed_job [OF assms(1-3) refl assms(4), of outcomeShutdown] classify_shutdown [OF assms(6) dn(1)]
    by (simp add: assms(5) scan_error_def)
  have "run_signal cfg q (ds_world d) = (False, False)"
    using dn(2) by (simp add: run_signal_exact Let_def)
  then have "ds_health (serve S cfg d q) = ds_health d" "ds_stamp (serve S cfg d q) = ds_stamp d"
    by (simp_all add: serve_health serve_stamp)
  then show ?thesis
    using assms(1,9) by (auto simp: daemon_run_outcome j Let_def serve_def carries_def runClient_def finishResult_def
        split: prod.splits)
qed

definition stopped_request :: "(bytes list, doc) request" where
  "stopped_request = \<lparr>q_trigger = ''external'', q_ctx = \<lparr>c_done = Some (3, Canceled), c_cause = ErrCanceled\<rparr>,
     q_env = demo_job\<lparr>je_newCmd := (\<lambda>ctx argv stdin. \<lparr>cr_stdout = [], cr_stderr = [],
       cr_err = Some (ErrSys ''signal: killed''), cr_end = 4, cr_files = (\<lambda>f. f)\<rparr>)\<rparr>, q_errAt = 9, q_dur = 4\<rparr>"

definition stopped_event :: Event where
  "stopped_event = (let r = fst (daemon_run demo_svc demo_cfg stopped_request demo_state) in
     \<lparr>ev_OK = o_OK r, ev_Reason = o_Reason r, ev_DurationMs = 4\<rparr>)"

lemma stopped_carries: "carries (fst (daemon_run demo_svc demo_cfg stopped_request demo_state)) stopped_event"
  by (simp add: carries_def stopped_event_def Let_def)

theorem interrupted_scan_exits_ok_witness:
  "snd (runClient demo_env socketPath [EventQueued, EventStarted] (Inr stopped_event)) = 0"
proof -
  let ?q = stopped_request
  have q: "je_TryLock (q_env ?q) = Inr True" "je_CreateTemp (q_env ?q) = Inr ''/cache/fclones_report_1.txt''"
    "cr_err (je_newCmd (q_env ?q) c argv s) = Some (ErrSys ''signal: killed'')"
    "pc_samples (je_scanClock (q_env ?q)) = (8, 8, 8)" "done_by (q_ctx ?q) 8" "8 \<le> q_errAt ?q" for c argv s
    by (simp_all add: stopped_request_def demo_job_def done_by_def)
  show ?thesis
    using interrupted_scan_exits_ok [OF q(1) demo_job_args [THEN conjunct1] q(2,3,4,5) order_refl q(6) stopped_carries] by blast
qed

text \<open>
  C17. A failed scan, from the process to the exit code of whoever asked for it. When the fclones process of
  the scan fails, the run starts no action, and three things can be meant. The phase had run past its
  timeout: the run fails with the timeout. The process failed by itself: the run fails with its
  error. In both, the marker turns unhealthy and a scheduled run is recorded as failed, unless
  the shutdown came before the run was over. The daemon is shutting down: the run is no failure, the
  marker and the record stay as they were, and a client that gets its outcome exits 0 with \<open>triggered
  scan complete\<close> although no scan completed.
\<close>

theorem failed_scan_exact:
  assumes "je_TryLock (q_env q) = Inr True" "buildScanArgs cfg = Inr scan" "je_CreateTemp (q_env q) = Inr path"
    and "phaseContext (q_ctx q) (PhaseTimeout cfg) (pc_ctx (je_scanClock (q_env q))) = sc"
    and "cr_err (je_newCmd (q_env q) sc scan []) = Some e"
    and "pc_samples (je_scanClock (q_env q)) = (t1, t2, t3)" "t1 \<le> t2" "t2 \<le> t3" "t3 \<le> q_errAt q"
    and "latch_contract S draining" "\<not> draining (ds_health d)" "carries (fst (daemon_run S cfg q d)) ev"
  shows "let timeout = PhaseTimeout cfg; t0 = pc_ctx (je_scanClock (q_env q));
             timed_out = (0 < timeout \<and> t0 + timeout \<le> t1 \<and> \<not> done_by (q_ctx q) t2);
             stopped = (\<not> timed_out \<and> done_by (q_ctx q) t3);
             job = runFclonesJob (q_env q) (q_ctx q) cfg (q_trigger q) (ds_world d);
             r = daemon_run S cfg q d;
             judged = (\<not> done_by (q_ctx q) (q_errAt q)) in
    w_cmds (snd job) = w_cmds (ds_world d) @ [scan] \<and>
    fst job = (True, if timed_out then Some (ErrPhaseTimeout ''scan'' timeout)
                     else if stopped then None else Some (ErrPhaseExec ''scan'' e)) \<and>
    sv_healthy S (ds_health (snd r)) = (if judged then False else sv_healthy S (ds_health d)) \<and>
    ds_stamp (snd r) = (if judged \<and> q_trigger q \<in> {triggerStartup, triggerInterval}
                        then snd (sv_Record S (ds_stamp d) False) else ds_stamp d) \<and>
    snd (runClient E sock events (Inr ev)) = (if stopped then 0 else 1)"
proof -
  let ?t0 = "pc_ctx (je_scanClock (q_env q))"
  define timed_out where "timed_out = (0 < PhaseTimeout cfg \<and> ?t0 + PhaseTimeout cfg \<le> t1 \<and> \<not> done_by (q_ctx q) t2)"
  define stopped where "stopped = (\<not> timed_out \<and> done_by (q_ctx q) t3)"
  define out where "out = (if timed_out then outcomeTimeout else if stopped then outcomeShutdown else outcomeExecError)"
  have "classifyExecOutcome (q_ctx q) sc (pc_samples (je_scanClock (q_env q))) (Some e) = out"
    using phase_deadline [OF assms(7), of "q_ctx q" "PhaseTimeout cfg" ?t0] ctx_Err_done [of "q_ctx q" t3]
    by (simp add: classifyExecOutcome_def assms(6) assms(4) [symmetric] out_def timed_out_def stopped_def)
  note j = failed_job [OF assms(1-5) this, of "q_trigger q" "ds_world d"]
  have err: "scan_error cfg e out = (if timed_out then Some (ErrPhaseTimeout ''scan'' (PhaseTimeout cfg))
      else if stopped then None else Some (ErrPhaseExec ''scan'' e))"
    by (simp add: scan_error_def out_def)
  have judged: "\<not> done_by (q_ctx q) (q_errAt q) \<Longrightarrow> \<not> stopped"
    using done_by_mono [OF _ assms(9)] by (auto simp: stopped_def)
  have sig: "run_signal cfg q (ds_world d) = (\<not> done_by (q_ctx q) (q_errAt q), False)"
    using judged by (auto simp: run_signal_exact Let_def j err)
  have "sv_healthy S (ds_health (serve S cfg d q)) = (if \<not> done_by (q_ctx q) (q_errAt q) then False else sv_healthy S (ds_health d))"
    using assms(10) by (simp add: serve_health sig latch_contract_def)
  moreover have "ds_stamp (serve S cfg d q) = (if \<not> done_by (q_ctx q) (q_errAt q) \<and> q_trigger q \<in> {triggerStartup, triggerInterval}
      then snd (sv_Record S (ds_stamp d) False) else ds_stamp d)"
    by (simp add: serve_stamp sig)
  moreover have "snd (runClient E sock events (Inr ev)) = (if stopped then 0 else 1)"
    using j err assms(12) by (auto simp: daemon_run_outcome carries_def runClient_def finishResult_def stopped_def Let_def)
  ultimately show ?thesis
    using j err unfolding Let_def timed_out_def [symmetric] stopped_def [symmetric] by (simp add: serve_def)
qed

theorem failed_scan_exact_witness:
  "snd (runClient demo_env socketPath [EventQueued, EventStarted] (Inr stopped_event)) = 0 \<and>
   \<not> sv_healthy demo_svc (ds_health (snd (daemon_run demo_svc demo_cfg stopped_request demo_state)))"
proof -
  let ?q = stopped_request
  have q: "je_TryLock (q_env ?q) = Inr True" "je_CreateTemp (q_env ?q) = Inr ''/cache/fclones_report_1.txt''"
    "cr_err (je_newCmd (q_env ?q) c argv s) = Some (ErrSys ''signal: killed'')"
    "pc_samples (je_scanClock (q_env ?q)) = (8, 8, 8)" "done_by (q_ctx ?q) 8" "8 \<le> q_errAt ?q" "\<not> fst (ds_health demo_state)"
    "\<not> sv_healthy demo_svc (ds_health demo_state)" for c argv s
    by (simp_all add: stopped_request_def demo_job_def done_by_def demo_state_def demo_svc_def)
  show ?thesis
    using failed_scan_exact [OF q(1) demo_job_args [THEN conjunct1] q(2) refl q(3,4) order_refl order_refl q(6) demo_contract q(7) stopped_carries,
        of demo_env socketPath "[EventQueued, EventStarted]"] q(5,8) by (simp add: Let_def)
qed

end
