(* ===== verification/FclonesFlags.thy ===== *)
theory FclonesFlags
  imports GoStrings "HOL-Library.Multiset"
begin

text \<open>
  \<open>internal/fclonesflags\<close>: the options an fclones binary lists in its help texts, the committed list they
  are compared with, and the comparison. The two regular expressions are functions on a line; the
  program under inspection is the parameter \<open>help\<close>.
\<close>

definition rootCommand :: bytes where "rootCommand = ''fclones''"

subsection \<open>The committed list\<close>

text \<open>\<open>slices.Sort\<close> then \<open>slices.Compact\<close>; strings compare byte by byte.\<close>

definition sort_compact :: "bytes list \<Rightarrow> bytes list" where
  "sort_compact xs = remdups_adj (sort xs)"

definition list_entry :: "bytes \<Rightarrow> bytes list" where
  "list_entry line =
     (let line1 = trim_space line in
      if line1 = [] \<or> has_prefix line1 ''#'' then [] else [join [sp] (str_fields line1)])"

definition parseList :: "bytes \<Rightarrow> bytes list" where
  "parseList text = sort_compact (concat (map list_entry (lines text)))"

text \<open>\<open>flags.txt\<close> is embedded by the build; its text is the parameter.\<close>

definition Snapshot :: "bytes \<Rightarrow> bytes list" where
  "Snapshot snapshot = parseList snapshot"

definition formatList :: "bytes \<Rightarrow> bytes list \<Rightarrow> bytes" where
  "formatList header entries =
     concat (map (\<lambda>line. ''# '' @ trim_right_set {nl} line @ [nl]) (lines header)) @
     concat (map (\<lambda>e. e @ [nl]) entries)"

subsection \<open>Help texts\<close>

definition is_alnum :: "char \<Rightarrow> bool" where
  "is_alnum c \<longleftrightarrow> is_digit c \<or> (0x41 \<le> byte_val c \<and> byte_val c \<le> 0x5A) \<or> (0x61 \<le> byte_val c \<and> byte_val c \<le> 0x7A)"

definition is_lower :: "char \<Rightarrow> bool" where
  "is_lower c \<longleftrightarrow> 0x61 \<le> byte_val c \<and> byte_val c \<le> 0x7A"

text \<open>The class \<open>\\s\<close> of the regular expressions.\<close>

definition re_space :: "rune \<Rightarrow> bool" where
  "re_space r \<longleftrightarrow> r = 0x09 \<or> r = 0x0A \<or> r = 0x0C \<or> r = 0x0D \<or> r = 0x20"

text \<open>\<open>--[A-Za-z0-9][A-Za-z0-9-]*\<close>, longest match: the name and what follows it.\<close>

definition long_flag :: "bytes \<Rightarrow> (bytes \<times> bytes) option" where
  "long_flag s =
     (if has_prefix s ''--'' \<and> drop 2 s \<noteq> [] \<and> is_alnum (hd (drop 2 s))
      then let name = takeWhile (\<lambda>c. is_alnum c \<or> c = CHR ''-'') (drop 2 s) in
        Some (''--'' @ name, drop (length name + 2) s)
      else None)"

text \<open>\<open>(?:[ =\\[]|$)\<close>.\<close>

definition flag_ends :: "bytes \<Rightarrow> bool" where
  "flag_ends s \<longleftrightarrow> s = [] \<or> hd s \<in> {CHR '' '', CHR ''='', CHR ''[''}"

text \<open>
  The two alternatives of \<open>optionLine\<close>: what may follow a short flag, and a long flag alone; then the
  expression, whose one rune \<open>[^\\s,-]\<close> decides which of them is tried. No line can match in two ways.
\<close>

definition short_entry :: "bytes \<Rightarrow> bytes \<Rightarrow> bytes list option" where
  "short_entry short s =
     (case (if has_prefix s '', '' then long_flag (drop 2 s) else None) of
        Some (long, t) \<Rightarrow> if flag_ends t then Some [short, long] else None
      | None \<Rightarrow> if flag_ends s then Some [short] else None)"

definition long_entry :: "bytes \<Rightarrow> bytes list option" where
  "long_entry s =
     (case long_flag s of
        Some (long, t) \<Rightarrow> if flag_ends t then Some [long] else None
      | None \<Rightarrow> None)"

definition short_ok :: "bytes \<Rightarrow> bool" where
  "short_ok u \<longleftrightarrow> u \<noteq> [] \<and> \<not> re_space (fst (decode_rune u)) \<and> fst (decode_rune u) \<noteq> 0x2C \<and> fst (decode_rune u) \<noteq> 0x2D"

definition optionLine :: "bytes \<Rightarrow> bytes list option" where
  "optionLine line =
     (let rest = drop 2 line; u = drop 3 line; n = snd (decode_rune u) in
      if \<not> has_prefix line ''  '' then None
      else if has_prefix rest ''-'' \<and> short_ok u
        then short_entry (CHR ''-'' # take n u) (drop n u)
      else long_entry (if has_prefix rest ''    '' then drop 4 rest else rest))"

definition commandLine :: "bytes \<Rightarrow> bytes option" where
  "commandLine line =
     (if \<not> has_prefix line ''  '' \<or> drop 2 line = [] \<or> \<not> is_lower (hd (drop 2 line)) then None
      else let name = takeWhile (\<lambda>c. is_lower c \<or> is_digit c \<or> c = CHR ''-'') (drop 2 line);
               rest = drop (length name + 2) line in
        if rest = [] \<or> re_space (byte_val (hd rest)) then Some name else None)"

definition trim_eol :: "bytes \<Rightarrow> bytes" where
  "trim_eol line = trim_right_set {nl, CHR 0x0D} line"

definition options :: "bytes \<Rightarrow> bytes list" where
  "options help =
     sort_compact (concat (map (\<lambda>line. case optionLine (trim_eol line) of None \<Rightarrow> [] | Some fs \<Rightarrow> fs)
       (lines help)))"

fun commands_loop :: "bool \<Rightarrow> bytes list \<Rightarrow> bytes list \<Rightarrow> bytes list" where
  "commands_loop inSection cmds [] = cmds"
| "commands_loop inSection cmds (l # ls) =
     (let line = trim_eol l in
      if line = ''Commands:'' then commands_loop True cmds ls
      else if inSection \<and> trim_space line = [] then cmds
      else if inSection then
        (case commandLine line of
           Some name \<Rightarrow> commands_loop inSection (if name \<noteq> ''help'' then cmds @ [name] else cmds) ls
         | None \<Rightarrow> commands_loop inSection cmds ls)
      else commands_loop inSection cmds ls)"

definition commands :: "bytes \<Rightarrow> bytes list" where
  "commands help = commands_loop False [] (lines help)"

subsection \<open>The inventory\<close>

datatype flag_error =
    HelpFails "bytes list" syserr
  | NoSubcommand
  | NoOption bytes

definition scoped :: "bytes \<Rightarrow> bytes \<Rightarrow> flag_error + bytes list" where
  "scoped cmd help =
     (let flags = options help in
      if flags = [] then Inl (NoOption cmd) else Inr (map (\<lambda>f. cmd @ sp # f) flags))"

fun inventory_loop ::
  "(bytes list \<Rightarrow> syserr + bytes) \<Rightarrow> bytes list \<Rightarrow> bytes list \<Rightarrow> flag_error + bytes list" where
  "inventory_loop help entries [] = Inr entries"
| "inventory_loop help entries (cmd # cmds) =
     (case help [cmd, ''--help''] of
        Inl e \<Rightarrow> Inl (HelpFails [cmd, ''--help''] e)
      | Inr text \<Rightarrow> bind_err (scoped cmd text) (\<lambda>more. inventory_loop help (entries @ more) cmds))"

definition inventory :: "(bytes list \<Rightarrow> syserr + bytes) \<Rightarrow> flag_error + bytes list" where
  "inventory help =
     (case help [''--help''] of
        Inl e \<Rightarrow> Inl (HelpFails [''--help''] e)
      | Inr root \<Rightarrow>
          let cmds = commands root in
          if cmds = [] then Inl NoSubcommand
          else bind_err (scoped rootCommand root) (\<lambda>entries.
               bind_err (inventory_loop help entries cmds) (\<lambda>all. Inr (sort all))))"

subsection \<open>The comparison\<close>

text \<open>\<open>slices.BinarySearch\<close>: the least index whose element is not below the target, by bisection.\<close>

function bisect :: "bytes list \<Rightarrow> bytes \<Rightarrow> nat \<Rightarrow> nat \<Rightarrow> nat" where
  "bisect xs t i j =
     (if i < j then let h = (i + j) div 2 in if xs ! h < t then bisect xs t (h + 1) j else bisect xs t i h
      else i)"
  by pat_completeness auto
termination
  by (relation "measure (\<lambda>(xs, t, i, j). j - i)") auto

declare bisect.simps [simp del]

definition BinarySearch :: "bytes list \<Rightarrow> bytes \<Rightarrow> bool" where
  "BinarySearch xs t =
     (let i = bisect xs t 0 (length xs) in i < length xs \<and> xs ! i = t)"

definition flags_diff :: "bytes list \<Rightarrow> bytes list \<Rightarrow> bytes list \<times> bytes list" where
  "flags_diff want got =
     (filter (\<lambda>e. \<not> BinarySearch want e) got, filter (\<lambda>e. \<not> BinarySearch got e) want)"

subsection \<open>Sorting and comparing\<close>

lemma sort_compact_facts:
  "sorted (sort_compact xs)" "distinct (sort_compact xs)" "set (sort_compact xs) = set xs"
proof -
  have "distinct (remdups_adj ys)" if "sorted ys" for ys :: "bytes list"
    using that by (induction ys rule: remdups_adj.induct) (auto simp: order.antisym)
  then show "sorted (sort_compact xs)" "distinct (sort_compact xs)" "set (sort_compact xs) = set xs"
    by (simp_all add: sort_compact_def sorted_remdups_adj)
qed

lemma sort_compact_id: "sorted xs \<Longrightarrow> distinct xs \<Longrightarrow> sort_compact xs = xs"
  by (simp add: sort_compact_def sort_key_id_if_sorted remdups_adj_distinct)

text \<open>What the comparison relies on: a membership test that is exact on sorted lists.\<close>

locale sorted_lookup =
  fixes find :: "'a::linorder list \<Rightarrow> 'a \<Rightarrow> bool"
  assumes find_exact: "sorted xs \<Longrightarrow> find xs t = (t \<in> set xs)"
begin

lemma missing: "sorted xs \<Longrightarrow> filter (\<lambda>e. \<not> find xs e) ys = filter (\<lambda>e. e \<notin> set xs) ys"
  by (simp add: find_exact)

lemma nothing_missing: "sorted xs \<Longrightarrow> filter (\<lambda>e. \<not> find xs e) ys = [] \<longleftrightarrow> set ys \<subseteq> set xs"
  by (auto simp: find_exact filter_empty_conv)

end

text \<open>All elements left of \<open>i\<close> are below the target, none from \<open>j\<close> on is.\<close>

definition below :: "bytes list \<Rightarrow> bytes \<Rightarrow> nat \<Rightarrow> bool" where
  "below xs t i \<longleftrightarrow> (\<forall>k<i. xs ! k < t)"

definition above :: "bytes list \<Rightarrow> bytes \<Rightarrow> nat \<Rightarrow> bool" where
  "above xs t j \<longleftrightarrow> (\<forall>k<length xs. j \<le> k \<longrightarrow> t \<le> xs ! k)"

lemma below_step: "sorted xs \<Longrightarrow> h < length xs \<Longrightarrow> xs ! h < t \<Longrightarrow> below xs t (h + 1)"
  unfolding below_def using sorted_nth_mono [of xs _ h] by (auto simp: less_Suc_eq_le intro: order_le_less_trans)

lemma above_step: "sorted xs \<Longrightarrow> \<not> xs ! h < t \<Longrightarrow> above xs t h"
  unfolding above_def by (meson leI order_trans sorted_nth_mono)

lemma bisect_least:
  "sorted xs \<Longrightarrow> i \<le> j \<Longrightarrow> j \<le> length xs \<Longrightarrow> below xs t i \<Longrightarrow> above xs t j \<Longrightarrow>
     below xs t (bisect xs t i j) \<and> above xs t (bisect xs t i j)"
proof (induction xs t i j rule: bisect.induct)
  case (1 xs t i j)
  define h where "h = (i + j) div 2"
  have h: "i < j \<Longrightarrow> i \<le> h \<and> h < j" by (auto simp: h_def)
  consider "\<not> i < j" | "i < j" "xs ! h < t" | "i < j" "\<not> xs ! h < t" by blast
  then show ?case
  proof cases
    case 1
    then have "i = j" using "1.prems"(2) by simp
    then have "bisect xs t i j = i" by (simp add: bisect.simps [of xs t j j])
    with \<open>i = j\<close> show ?thesis using "1.prems" by simp
  next
    case 2
    then have "bisect xs t i j = bisect xs t (h + 1) j"
      by (subst bisect.simps) (simp add: h_def Let_def)
    moreover have "below xs t (h + 1)"
      using below_step 2 h "1.prems" by (meson order_less_le_trans)
    ultimately show ?thesis
      using "1.IH"(1) [OF 2(1) h_def 2(2)] h [OF 2(1)] "1.prems" by simp
  next
    case 3
    then have "bisect xs t i j = bisect xs t i h"
      by (subst bisect.simps) (simp add: h_def Let_def)
    moreover have "above xs t h" using above_step 3 "1.prems" by blast
    ultimately show ?thesis
      using "1.IH"(2) [OF 3(1) h_def 3(2)] h [OF 3(1)] "1.prems" by simp
  qed
qed

lemma BinarySearch_exact: "sorted xs \<Longrightarrow> BinarySearch xs t = (t \<in> set xs)"
proof -
  let ?b = "bisect xs t 0 (length xs)"
  assume s: "sorted xs"
  then have b: "below xs t ?b" "above xs t ?b"
    using bisect_least [of xs 0 "length xs" t] by (simp_all add: below_def above_def)
  have "BinarySearch xs t" if m: "t \<in> set xs"
  proof -
    obtain k where k: "k < length xs" "xs ! k = t" using m by (metis in_set_conv_nth)
    then have bk: "?b \<le> k" using b(1) unfolding below_def by (meson leI less_irrefl)
    then have "xs ! ?b \<le> t" using s k sorted_nth_mono by metis
    moreover have "t \<le> xs ! ?b" using b(2) bk k(1) unfolding above_def by simp
    ultimately show ?thesis using bk k by (simp add: BinarySearch_def Let_def order.antisym)
  qed
  moreover have "t \<in> set xs" if "BinarySearch xs t"
    using that by (metis BinarySearch_def nth_mem)
  ultimately show ?thesis by blast
qed

interpretation search: sorted_lookup BinarySearch
  by unfold_locales (rule BinarySearch_exact)

lemma parseList_sorted: "sorted (parseList text)" "distinct (parseList text)"
  by (simp_all add: parseList_def sort_compact_facts)

lemma scoped_Inr: "scoped cmd help = Inr ms \<longleftrightarrow> options help \<noteq> [] \<and> ms = map (\<lambda>f. cmd @ sp # f) (options help)"
  by (auto simp: scoped_def Let_def)

text \<open>The entries a command's help text gives.\<close>

definition listed :: "(bytes list \<Rightarrow> syserr + bytes) \<Rightarrow> bytes list \<Rightarrow> bytes \<Rightarrow> bytes list" where
  "listed help args cmd =
     (case help args of Inl _ \<Rightarrow> [] | Inr text \<Rightarrow> map (\<lambda>f. cmd @ sp # f) (options text))"

lemma inventory_loop_Inr:
  "inventory_loop help entries cmds = Inr all \<longleftrightarrow>
     (\<forall>c \<in> set cmds. listed help [c, ''--help''] c \<noteq> []) \<and>
     all = entries @ concat (map (\<lambda>c. listed help [c, ''--help''] c) cmds)"
  by (induction cmds arbitrary: entries)
    (auto simp: bind_err_eq_Inr scoped_Inr listed_def split: sum.splits)

lemma inventory_Inr:
  "inventory help = Inr got \<longleftrightarrow>
     (\<exists>root. help [''--help''] = Inr root \<and> commands root \<noteq> [] \<and> options root \<noteq> [] \<and>
        (\<forall>c \<in> set (commands root). listed help [c, ''--help''] c \<noteq> []) \<and>
        got = sort (listed help [''--help''] rootCommand @
                concat (map (\<lambda>c. listed help [c, ''--help''] c) (commands root))))"
  by (auto simp: inventory_def Let_def bind_err_eq_Inr scoped_Inr inventory_loop_Inr listed_def
      split: sum.splits)


subsection \<open>The gate of the image build\<close>

text \<open>
  C38. The comparison of a binary's options with the committed list is exact although it looks entries up
  by bisection: an inventory and a parsed list are sorted, so what is reported as added or removed is
  precisely the difference, and nothing is reported exactly when both hold the same entries.
\<close>

theorem flag_drift_exact:
  assumes "inventory help = Inr got"
  shows "flags_diff (Snapshot text) got =
       (filter (\<lambda>e. e \<notin> set (Snapshot text)) got, filter (\<lambda>e. e \<notin> set got) (Snapshot text)) \<and>
     (flags_diff (Snapshot text) got = ([], []) \<longleftrightarrow> set got = set (Snapshot text))"
proof -
  have "sorted got" using assms by (auto simp: inventory_Inr)
  then show ?thesis
    by (auto simp: Snapshot_def flags_diff_def search.missing search.nothing_missing parseList_sorted filter_empty_conv)
qed

text \<open>
  C39. An inventory either holds, in order, every option of every listed command and of the program
  itself, with no help text empty of options, or it fails with the reason: the help run that failed,
  no subcommand at all, or a command whose help lists no option.
\<close>

theorem inventory_exact:
  "(case inventory help of
      Inr got \<Rightarrow>
        (\<exists>root. help [''--help''] = Inr root \<and> commands root \<noteq> [] \<and> listed help [''--help''] rootCommand \<noteq> [] \<and>
          list_all (\<lambda>c. listed help [c, ''--help''] c \<noteq> []) (commands root) \<and>
          sorted got \<and>
          mset got = mset (listed help [''--help''] rootCommand) +
            mset (concat (map (\<lambda>c. listed help [c, ''--help''] c) (commands root))))
    | Inl (HelpFails args e) \<Rightarrow> help args = Inl e
    | Inl NoSubcommand \<Rightarrow> \<exists>root. help [''--help''] = Inr root \<and> commands root = []
    | Inl (NoOption cmd) \<Rightarrow>
        \<exists>args text. (args = [''--help''] \<and> cmd = rootCommand \<or> args = [cmd, ''--help'']) \<and>
          help args = Inr text \<and> options text = [])"
proof (cases "inventory help")
  case (Inr got)
  then obtain root where r: "help [''--help''] = Inr root" "commands root \<noteq> []" "options root \<noteq> []"
      "\<forall>c \<in> set (commands root). listed help [c, ''--help''] c \<noteq> []"
      "got = sort (listed help [''--help''] rootCommand @
                concat (map (\<lambda>c. listed help [c, ''--help''] c) (commands root)))"
    by (auto simp: inventory_Inr)
  moreover have "listed help [''--help''] rootCommand \<noteq> []" using r by (simp add: listed_def)
  ultimately show ?thesis
    by (simp add: Inr list_all_iff)
next
  case (Inl err)
  have loop: "inventory_loop help entries cmds = Inl err \<Longrightarrow>
      (case err of HelpFails args e \<Rightarrow> help args = Inl e | NoSubcommand \<Rightarrow> False
        | NoOption cmd \<Rightarrow> \<exists>text. help [cmd, ''--help''] = Inr text \<and> options text = [])" for entries cmds
    by (induction cmds arbitrary: entries)
      (auto simp: bind_err_eq_Inl scoped_def Let_def split: sum.splits if_splits)
  show ?thesis
  proof (cases "help [''--help'']")
    case e: (Inl e)
    then show ?thesis by (simp add: inventory_def)
  next
    case r: (Inr root)
    consider "commands root = []" | "commands root \<noteq> []" "options root = []"
      | entries where "commands root \<noteq> []" "inventory_loop help entries (commands root) = Inl err"
      using Inl r by (auto simp: inventory_def Let_def bind_err_eq_Inl scoped_def split: if_splits)
    then show ?thesis
    proof cases
      case 1
      then show ?thesis using r by (simp add: inventory_def)
    next
      case 2
      then have "inventory help = Inl (NoOption rootCommand)"
        using r by (simp add: inventory_def Let_def scoped_def)
      with 2 r show ?thesis by auto
    next
      case 3
      then show ?thesis using loop [OF 3(2)] r by (auto simp: Inl split: flag_error.splits)
    qed
  qed
qed

subsection \<open>The committed list\<close>

lemma lines_cons: "nl \<notin> set a \<Longrightarrow> lines (a @ nl # s) = (a @ [nl]) # lines s"
  by (induction a) auto

lemma lines_no_inner: "l \<in> set (lines s) \<Longrightarrow> \<exists>a. nl \<notin> set a \<and> (l = a \<or> l = a @ [nl])"
proof (induction s arbitrary: l)
  case (Cons c s)
  show ?case
  proof (cases "lines s")
    case Nil
    then show ?thesis using Cons by (auto intro: exI [of _ "[]"] exI [of _ "[c]"] split: if_splits)
  next
    case (Cons m ms)
    obtain a where a: "nl \<notin> set a" "m = a \<or> m = a @ [nl]" using Cons.IH [of m] Cons by auto
    have "\<exists>b. nl \<notin> set b \<and> (c # m = b \<or> c # m = b @ [nl])" if "c \<noteq> nl"
      using a that by (intro exI [of _ "c # a"]) auto
    then show ?thesis using Cons.prems Cons.IH Cons
      by (auto intro: exI [of _ "[]"] split: if_splits)
  qed
qed simp

lemma trim_eol_line: "l \<in> set (lines s) \<Longrightarrow> nl \<notin> set (trim_right_set {nl} l)"
proof -
  assume "l \<in> set (lines s)"
  then obtain a where a: "nl \<notin> set a" "l = a \<or> l = a @ [nl]" using lines_no_inner by blast
  have "set (trim_right_set {nl} l) \<subseteq> set a"
    using a set_dropWhileD [of _ "\<lambda>c. c \<in> {nl}" "rev a"] by (auto simp: trim_right_set_def)
  with a show ?thesis by blast
qed

text \<open>An entry as the list holds it: words separated by single blanks, not a comment.\<close>

definition plain_entry :: "bytes \<Rightarrow> bool" where
  "plain_entry e \<longleftrightarrow> (\<exists>ws. ws \<noteq> [] \<and> list_all plain_word ws \<and> e = join [sp] ws \<and> \<not> has_prefix e ''#'')"

lemma join_ends:
  "ws \<noteq> [] \<Longrightarrow> list_all plain_word ws \<Longrightarrow>
     join [sp] ws \<noteq> [] \<and> word_byte (hd (join [sp] ws)) \<and> word_byte (last (join [sp] ws)) \<and> nl \<notin> set (join [sp] ws)"
proof (induction ws rule: induct_list012)
  case (2 x)
  then show ?case by (auto simp: plain_word_def list_all_iff word_byte_def byte_val_def is_space_def)
next
  case (3 x y zs)
  then have "plain_word x" by simp
  then have "x \<noteq> [] \<and> word_byte (hd x) \<and> nl \<notin> set x"
    by (auto simp: plain_word_def list_all_iff word_byte_def byte_val_def is_space_def)
  with 3 show ?case by (auto simp: hd_append)
qed simp

lemma decode_last_snoc: "byte_val c < RuneSelf \<Longrightarrow> decode_last_rune (s @ [c]) = (byte_val c, 1)"
  by (simp add: decode_last_rune_def)

lemma list_entry_line: "plain_entry e \<Longrightarrow> list_entry (e @ [nl]) = [e]"
proof -
  assume "plain_entry e"
  then obtain ws where ws: "ws \<noteq> []" "list_all plain_word ws" "e = join [sp] ws" "\<not> has_prefix e ''#''"
    by (auto simp: plain_entry_def)
  note e = join_ends [OF ws(1,2), folded ws(3)]
  have "trim_left_space (e @ [nl]) = e @ [nl]"
    using e by (subst trim_left_space.simps) (cases e; simp add: decode_rune_ascii word_byte_def)
  moreover have "trim_right_space (e @ [nl]) = trim_right_space e"
    by (subst trim_right_space.simps) (simp add: decode_last_snoc ascii_simps)
  ultimately have "trim_space (e @ [nl]) = e"
    using trim_space_id [of e] e
    by (simp add: trim_space_def) (metis trim_left_space.simps decode_rune_ascii list.exhaust_sel fst_conv word_byte_def)
  with e ws show ?thesis by (simp add: list_entry_def Let_def str_fields_join)
qed

lemma trim_right_take: "\<exists>k. trim_right_space p = take k p"
proof (induction p rule: trim_right_space.induct)
  case (1 p)
  show ?case
  proof (cases "p \<noteq> [] \<and> is_space (fst (decode_last_rune p))")
    case True
    then obtain k where "trim_right_space (take (length p - snd (decode_last_rune p)) p) =
        take k (take (length p - snd (decode_last_rune p)) p)" using 1 by blast
    with True show ?thesis by (subst trim_right_space.simps) (auto simp: take_take)
  next
    case False
    then show ?thesis by (subst trim_right_space.simps) (auto intro: exI [of _ "length p"])
  qed
qed

lemma list_entry_comment: "list_entry (''# '' @ s) = []"
proof -
  have w: "word_byte (CHR ''#'')" by (simp add: ascii_simps)
  have "trim_left_space (''# '' @ s) = ''# '' @ s"
    by (subst trim_left_space.simps) (simp add: decode_rune_ascii ascii_simps)
  moreover obtain k where "trim_right_space (''# '' @ s) = take k (''# '' @ s)"
    using trim_right_take by blast
  ultimately have t: "trim_space (''# '' @ s) = take k (''# '' @ s)" by (simp add: trim_space_def)
  moreover have "CHR ''#'' \<in> set (trim_space (''# '' @ s))" using w by (intro trim_keeps) auto
  ultimately have "0 < k" by (cases k) auto
  with t show ?thesis by (cases k) (simp_all add: list_entry_def Let_def)
qed

lemma parse_entries:
  "list_all plain_entry es \<Longrightarrow> concat (map list_entry (lines (concat (map (\<lambda>e. e @ [nl]) es)))) = es"
proof (induction es)
  case (Cons e es)
  then have "nl \<notin> set e" using join_ends by (auto simp: plain_entry_def)
  with Cons show ?case by (simp add: lines_cons list_entry_line)
qed simp

lemma parse_header:
  "\<forall>l \<in> set hs. nl \<notin> set l \<Longrightarrow>
     concat (map list_entry (lines (concat (map (\<lambda>l. ''# '' @ l @ [nl]) hs) @ s))) = concat (map list_entry (lines s))"
proof (induction hs)
  case (Cons h hs)
  have "lines ((''# '' @ h @ [nl]) @ s') = (''# '' @ h @ [nl]) # lines s'" for s'
    using lines_cons [of "''# '' @ h" s'] Cons.prems by simp
  with Cons list_entry_comment show ?case by simp
qed simp

lemma parse_formatList:
  assumes "sorted entries" "distinct entries" "list_all plain_entry entries"
  shows "parseList (formatList header entries) = entries"
proof -
  have "\<forall>l \<in> set (map (trim_right_set {nl}) (lines header)). nl \<notin> set l"
    using trim_eol_line by auto
  then have "concat (map list_entry (lines (formatList header entries))) = entries"
    using parse_header [of "map (trim_right_set {nl}) (lines header)"] parse_entries [OF assms(3)]
    by (simp add: formatList_def comp_def)
  then show ?thesis using assms by (simp add: parseList_def sort_compact_id)
qed

text \<open>
  Writing a list under a header comment and reading it back gives the list, when it is sorted,
  without duplicates and made of plain entries; the header may be any text.
\<close>

theorem list_roundtrip:
  assumes "sorted entries" "distinct entries" "list_all plain_entry entries"
  shows "parseList (formatList header entries) = entries"
  using assms by (rule parse_formatList)

subsection \<open>Option lines\<close>

text \<open>The regular expression read as a grammar: which flags a line lists.\<close>

definition long_name :: "bytes \<Rightarrow> bool" where
  "long_name n \<longleftrightarrow> n \<noteq> [] \<and> is_alnum (hd n) \<and> list_all (\<lambda>c. is_alnum c \<or> c = CHR ''-'') n"

text \<open>\<open>c\<close> holds the one rune \<open>[^\\s,-]\<close> matches, in front of \<open>t\<close>.\<close>

definition short_name :: "bytes \<Rightarrow> bytes \<Rightarrow> bool" where
  "short_name c t \<longleftrightarrow> c \<noteq> [] \<and>
     (\<exists>r. decode_rune (c @ t) = (r, length c) \<and> \<not> re_space r \<and> r \<noteq> 0x2C \<and> r \<noteq> 0x2D)"

definition option_form :: "bytes \<Rightarrow> bytes list \<Rightarrow> bool" where
  "option_form line fs \<longleftrightarrow>
     (\<exists>c t. line = ''  -'' @ c @ t \<and> short_name c t \<and> flag_ends t \<and> fs = [''-'' @ c]) \<or>
     (\<exists>c n t. line = ''  -'' @ c @ '', --'' @ n @ t \<and> short_name c ('', --'' @ n @ t) \<and> long_name n \<and>
        flag_ends t \<and> fs = [''-'' @ c, ''--'' @ n]) \<or>
     (\<exists>n t. (line = ''  --'' @ n @ t \<or> line = ''      --'' @ n @ t) \<and> long_name n \<and> flag_ends t \<and> fs = [''--'' @ n])"

lemma flag_ends_tail: "flag_ends t \<Longrightarrow> takeWhile (\<lambda>c. is_alnum c \<or> c = CHR ''-'') t = []"
  by (cases t) (auto simp: flag_ends_def is_alnum_def is_digit_def byte_val_def)

lemma long_flag_iff:
  "flag_ends t \<Longrightarrow> long_flag s = Some (f, t) \<longleftrightarrow> (\<exists>n. s = ''--'' @ n @ t \<and> long_name n \<and> f = ''--'' @ n)"
proof
  assume e: "flag_ends t" and "\<exists>n. s = ''--'' @ n @ t \<and> long_name n \<and> f = ''--'' @ n"
  then obtain n where n: "s = ''--'' @ n @ t" "long_name n" "f = ''--'' @ n" by blast
  have "takeWhile (\<lambda>c. is_alnum c \<or> c = CHR ''-'') (n @ t) = n"
    using n(2) flag_ends_tail [OF e] by (simp add: long_name_def list_all_iff takeWhile_append2)
  with n show "long_flag s = Some (f, t)"
    by (auto simp: long_flag_def long_name_def Let_def has_prefix_def)
next
  assume "long_flag s = Some (f, t)"
  then have p: "has_prefix s ''--''" "drop 2 s \<noteq> []" "is_alnum (hd (drop 2 s))"
    and f: "f = ''--'' @ takeWhile (\<lambda>c. is_alnum c \<or> c = CHR ''-'') (drop 2 s)"
      "t = drop (length (takeWhile (\<lambda>c. is_alnum c \<or> c = CHR ''-'') (drop 2 s)) + 2) s"
    by (auto simp: long_flag_def Let_def split: if_splits)
  obtain u where u: "s = ''--'' @ u" using p(1) has_prefix_iff by blast
  let ?n = "takeWhile (\<lambda>c. is_alnum c \<or> c = CHR ''-'') u"
  have "long_name ?n" using p u by (cases u) (auto simp: long_name_def list_all_iff dest: set_takeWhileD)
  moreover have "u = ?n @ t" using f u by (simp flip: dropWhile_eq_drop)
  ultimately show "\<exists>n. s = ''--'' @ n @ t \<and> long_name n \<and> f = ''--'' @ n"
    using f u by (metis append_Cons append_Nil drop0 drop_Suc_Cons numeral_2_eq_2)
qed

lemma long_case:
  "(case long_flag s of Some (f, t) \<Rightarrow> if flag_ends t then Some (g f) else None | None \<Rightarrow> None) = Some fs
     \<longleftrightarrow> (\<exists>n t. s = ''--'' @ n @ t \<and> long_name n \<and> flag_ends t \<and> fs = g (''--'' @ n))"
  (is "?l \<longleftrightarrow> ?r")
proof
  assume ?l
  then obtain f t where f: "long_flag s = Some (f, t)" "flag_ends t" "fs = g f"
    by (auto split: option.splits if_splits)
  then obtain n where "s = ''--'' @ n @ t" "long_name n" "f = ''--'' @ n"
    using long_flag_iff [OF f(2)] by metis
  with f show ?r by blast
next
  assume ?r
  then obtain n t where n: "s = ''--'' @ n @ t" "long_name n" "flag_ends t" "fs = g (''--'' @ n)" by blast
  then have "long_flag s = Some (''--'' @ n, t)" using long_flag_iff [OF n(3)] by metis
  with n show ?l by simp
qed

lemma long_entry_iff:
  "long_entry s = Some fs \<longleftrightarrow> (\<exists>n t. s = ''--'' @ n @ t \<and> long_name n \<and> flag_ends t \<and> fs = [''--'' @ n])"
  using long_case [of "\<lambda>f. [f]" s fs] by (simp add: long_entry_def)

lemma short_entry_iff:
  "short_entry short s = Some fs \<longleftrightarrow>
     flag_ends s \<and> fs = [short] \<or>
     (\<exists>n t. s = '', --'' @ n @ t \<and> long_name n \<and> flag_ends t \<and> fs = [short, ''--'' @ n])"
proof (cases "has_prefix s '', ''")
  case True
  then obtain v where v: "s = '', '' @ v" using has_prefix_iff by blast
  then have e: "\<not> flag_ends s" by (simp add: flag_ends_def)
  have "short_entry short s = Some fs \<longleftrightarrow>
      (case long_flag v of Some (f, t) \<Rightarrow> if flag_ends t then Some [short, f] else None | None \<Rightarrow> None) = Some fs"
    using v True e by (simp add: short_entry_def split: option.splits)
  with e v show ?thesis using long_case [of "\<lambda>f. [short, f]" v fs] by simp
next
  case False
  then have "s \<noteq> '', --'' @ n @ t" for n t by auto
  with False show ?thesis by (auto simp: short_entry_def)
qed

lemma short_chunk:
  assumes "u \<noteq> []"
  shows "(\<exists>c t. u = c @ t \<and> short_name c t \<and> Q c t) \<longleftrightarrow>
     \<not> re_space (fst (decode_rune u)) \<and> fst (decode_rune u) \<noteq> 0x2C \<and> fst (decode_rune u) \<noteq> 0x2D \<and>
     Q (take (snd (decode_rune u)) u) (drop (snd (decode_rune u)) u)"
  (is "?l \<longleftrightarrow> ?r")
proof
  assume ?l
  then obtain c t where "u = c @ t" "short_name c t" "Q c t" by blast
  then show ?r by (auto simp: short_name_def)
next
  assume r: ?r
  have s: "0 < snd (decode_rune u)" "snd (decode_rune u) \<le> length u" using decode_size_bounds [OF assms] by auto
  with r assms have "short_name (take (snd (decode_rune u)) u) (drop (snd (decode_rune u)) u)"
    by (auto simp: short_name_def min_def intro: exI [of _ "fst (decode_rune u)"] prod_eqI)
  with r show ?l by (intro exI [of _ "take (snd (decode_rune u)) u"] exI [of _ "drop (snd (decode_rune u)) u"]) simp
qed


lemma short_split:
  "(\<exists>c t. u = c @ t \<and> short_name c t \<and> Q c t) \<longleftrightarrow>
     short_ok u \<and> Q (take (snd (decode_rune u)) u) (drop (snd (decode_rune u)) u)"
proof (cases "u = []")
  case True
  then show ?thesis by (auto simp: short_ok_def short_name_def)
next
  case False
  then show ?thesis using short_chunk [OF False, of Q] by (simp add: short_ok_def)
qed

lemma short_ok_dash: "\<not> short_ok (CHR ''-'' # u)"
  by (simp add: short_ok_def decode_rune_ascii ascii_simps)

lemma option_dash:
  "optionLine (''  -'' @ u) = Some fs \<longleftrightarrow> option_form (''  -'' @ u) fs"
proof -
  have "option_form (''  -'' @ u) fs \<longleftrightarrow>
     (\<exists>c t. u = c @ t \<and> short_name c t \<and>
        (flag_ends t \<and> fs = [''-'' @ c] \<or>
         (\<exists>n t'. t = '', --'' @ n @ t' \<and> long_name n \<and> flag_ends t' \<and> fs = [''-'' @ c, ''--'' @ n]))) \<or>
     (\<exists>n t. ''-'' @ u = ''--'' @ n @ t \<and> long_name n \<and> flag_ends t \<and> fs = [''--'' @ n])"
    by (auto simp: option_form_def)
  also have "\<dots> \<longleftrightarrow> short_ok u \<and> short_entry (''-'' @ take (snd (decode_rune u)) u) (drop (snd (decode_rune u)) u) = Some fs \<or>
      long_entry (''-'' @ u) = Some fs"
    unfolding short_split short_entry_iff long_entry_iff ..
  also have "\<dots> \<longleftrightarrow> optionLine (''  -'' @ u) = Some fs"
  proof (cases "short_ok u")
    case True
    then have "u \<noteq> CHR ''-'' # v" for v using short_ok_dash by blast
    then have "long_entry (''-'' @ u) \<noteq> Some fs" by (auto simp: long_entry_iff)
    with True show ?thesis by (simp add: optionLine_def Let_def)
  next
    case False
    then show ?thesis by (simp add: optionLine_def Let_def)
  qed
  finally show ?thesis by blast
qed

lemma option_blank:
  "\<not> has_prefix rest ''-'' \<Longrightarrow> optionLine (''  '' @ rest) = Some fs \<longleftrightarrow> option_form (''  '' @ rest) fs"
proof -
  assume d: "\<not> has_prefix rest ''-''"
  then have o: "optionLine (''  '' @ rest) = long_entry (if has_prefix rest ''    '' then drop 4 rest else rest)"
    by (simp add: optionLine_def Let_def)
  have f: "option_form (''  '' @ rest) fs \<longleftrightarrow> (\<exists>n t. rest = ''    --'' @ n @ t \<and> long_name n \<and> flag_ends t \<and> fs = [''--'' @ n])"
    using d by (auto simp: option_form_def)
  show ?thesis
  proof (cases "has_prefix rest ''    ''")
    case True
    then obtain v where "rest = ''    '' @ v" using has_prefix_iff by blast
    with o f show ?thesis by (simp add: long_entry_iff)
  next
    case False
    then have "rest \<noteq> ''    --'' @ n @ t" "rest \<noteq> ''--'' @ n @ t" for n t using d by auto
    with o f False show ?thesis by (auto simp: long_entry_iff)
  qed
qed

lemma option_line: "optionLine line = Some fs \<longleftrightarrow> option_form line fs"
proof (cases "has_prefix line ''  ''")
  case False
  then have "line \<noteq> ''  '' @ r" for r by auto
  with False show ?thesis by (auto simp: optionLine_def option_form_def)
next
  case True
  then obtain rest where r: "line = ''  '' @ rest" using has_prefix_iff by blast
  show ?thesis
  proof (cases "has_prefix rest ''-''")
    case True
    then obtain u where "rest = ''-'' @ u" using has_prefix_iff by blast
    with r option_dash [of u fs] show ?thesis by simp
  next
    case False
    with r option_blank show ?thesis by simp
  qed
qed

text \<open>
  A line lists options exactly when it has one of the three shapes of a help entry, and then exactly
  those flags: a short flag at column 2, a short flag with its long form, or a long flag at column 2 or 6,
  each followed by a blank, \<open>=\<close>, \<open>[\<close> or the end of the line. A description line, which starts at another
  column, lists none.
\<close>

theorem option_line_exact:
  "(optionLine line = Some fs) = option_form line fs \<and>
   (optionLine line = None \<or> length (takeWhile (\<lambda>c. c = sp) line) \<in> {2, 6})"
proof -
  have "length (takeWhile (\<lambda>c. c = sp) line) \<in> {2, 6}" if "option_form line fs'" for fs'
    using that by (auto simp: option_form_def)
  then show ?thesis using option_line by (metis not_None_eq)
qed

subsection \<open>Witnesses\<close>

definition demo_help :: "bytes list \<Rightarrow> syserr + bytes" where
  "demo_help args =
     Inr (if args = [''--help'']
          then ''Commands:'' @ [nl] @ ''  group'' @ [nl] @ ''  -h, --help'' @ [nl]
          else ''  -s, --min <N>'' @ [nl])"

lemma demo_trim: "trim_space (''  group'') \<noteq> [] \<and> trim_space (''  -h, --help'') \<noteq> []"
proof -
  have "word_byte (CHR ''g'')" "word_byte (CHR ''-'')"
    by (simp_all add: ascii_simps)
  then show ?thesis
    using trim_keeps [of "CHR ''g''" "''  group''"] trim_keeps [of "CHR ''-''" "''  -h, --help''"]
    by fastforce
qed

lemma demo_commands: "commands (''Commands:'' @ [nl] @ ''  group'' @ [nl] @ ''  -h, --help'' @ [nl]) = [''group'']"
  using demo_trim
  by (simp add: commands_def trim_eol_def trim_right_set_def commandLine_def is_lower_def is_digit_def byte_val_def Let_def)

lemma demo_options:
  "options (''Commands:'' @ [nl] @ ''  group'' @ [nl] @ ''  -h, --help'' @ [nl]) = [''--help'', ''-h'']"
  "options (''  -s, --min <N>'' @ [nl]) = [''--min'', ''-s'']"
  by code_simp+

lemma demo_sorted: "sorted [''fclones --help'', ''fclones -h'', ''group --min'', ''group -s'']"
  by simp

lemma demo_inventory: "inventory demo_help = Inr [''fclones --help'', ''fclones -h'', ''group --min'', ''group -s'']"
  using demo_commands demo_options demo_sorted
  by (simp add: inventory_def demo_help_def scoped_def rootCommand_def sort_key_id_if_sorted)

lemma demo_entry: "plain_entry ''group -s'' \<and> plain_entry ''link -n''"
proof -
  have "plain_entry (join [sp] [a, b])" if "list_all plain_word [a, b]" "hd a \<noteq> CHR ''#''" for a b
    unfolding plain_entry_def using that by (intro exI [of _ "[a, b]"]) (cases a; auto simp: plain_word_def)
  from this [of "''group''" "''-s''"] this [of "''link''" "''-n''"] show ?thesis
    by (simp add: ascii_simps)
qed

lemma demo_list: "parseList (formatList ''list'' [''group -s'', ''link -n'']) = [''group -s'', ''link -n'']"
  using demo_entry by (intro parse_formatList) simp_all

theorem flag_drift_exact_witness:
  "flags_diff (Snapshot (formatList ''list'' [''group -s'', ''link -n'']))
     [''fclones --help'', ''fclones -h'', ''group --min'', ''group -s'']
   = ([''fclones --help'', ''fclones -h'', ''group --min''], [''link -n''])"
  using flag_drift_exact [OF demo_inventory, of "formatList ''list'' [''group -s'', ''link -n'']"]
  unfolding Snapshot_def demo_list by simp

theorem list_roundtrip_witness:
  "parseList (formatList (''two'' @ [nl] @ ''lines'') [''group -s'', ''link -n'']) = [''group -s'', ''link -n'']"
proof (rule list_roundtrip)
  show "sorted [''group -s'', ''link -n'']" by simp
  show "list_all plain_entry [''group -s'', ''link -n'']" using demo_entry by simp
qed simp

end
