(* ===== verification/Lifecycle.thy ===== *)
theory Lifecycle
  imports Daemon "HOL-Library.Multiset"
begin

text \<open>
  The daemon as a state machine: the goroutines that \<open>runDaemon\<close> starts, interleaved. The main flow, the
  executor, the interval ticker, and the server that admits triggered requests take turns in any order; one
  transition of \<open>lstep\<close> is one of their moves. A run of the executor is four of them: it takes a request,
  its job ends, the outcome is recorded, the request is answered. All look at the one context of the daemon,
  each at the time of its move. Some moves can be observed from outside; what they may be is specified by
  \<open>promise\<close>, the requests and the marker as a client and the health probe know them.

  Of the third-party queue only this is used: it is a FIFO of at most its capacity, a closed queue admits
  nothing, and a taken request is gone. A request still waiting when the context is done may be answered
  without a run.
\<close>

subsection \<open>States\<close>

datatype pc = Starting | Serving | Noticed | Draining | Stopped

text \<open>The ticker is off, about to submit, or waiting for the result of what it submitted.\<close>

datatype ticker = TickOff | TickReady bytes | TickWait bytes

text \<open>
  The executor: between two requests; in a job, with the trigger and the instant at which the run began;
  with the results of the job; and with the error of the context it recorded them under.
\<close>

datatype executor =
    ExIdle
  | ExRunning bytes instant
  | ExJudging bytes instant bool "goerr option"
  | ExRecorded bytes instant "ctxerr option" bool "goerr option"

text \<open>The last two fields are history: what happened between the statements of the main flow, and what the
  ticker submitted.\<close>

record ('t, 'h, 's, 'd) lc =
  lc_pc :: pc
  lc_now :: instant
  lc_ctx :: context_t
  lc_tick :: ticker
  lc_open :: bool
  lc_queue :: "bytes list"
  lc_exec :: executor
  lc_d :: "('t, 'h, 's) dstate"
  lc_segs :: "('t, 'd) segments"
  lc_sent :: "bytes list"

definition no_segments :: "('t, 'd) segments" where
  "no_segments = \<lparr>sg_start = [], sg_serve = [], sg_notice = [], sg_drain = []\<rparr>"

fun in_segment :: "pc \<Rightarrow> ('t, 'd) devent \<Rightarrow> ('t, 'd) segments \<Rightarrow> ('t, 'd) segments" where
  "in_segment Starting e sg = sg\<lparr>sg_start := sg_start sg @ [e]\<rparr>"
| "in_segment Serving e sg = sg\<lparr>sg_serve := sg_serve sg @ [e]\<rparr>"
| "in_segment Noticed e sg = sg\<lparr>sg_notice := sg_notice sg @ [e]\<rparr>"
| "in_segment _ e sg = sg\<lparr>sg_drain := sg_drain sg @ [e]\<rparr>"

definition happen ::
  "('h, 's) svc \<Rightarrow> config \<Rightarrow> ('t, 'd) devent \<Rightarrow> ('t, 'h, 's, 'd) lc \<Rightarrow> ('t, 'h, 's, 'd) lc" where
  "happen S cfg e s = s\<lparr>lc_d := dev_step S cfg (lc_d s) e, lc_segs := in_segment (lc_pc s) e (lc_segs s)\<rparr>"

text \<open>A waiting ticker goes on when its request is answered.\<close>

definition answered :: "bytes \<Rightarrow> ticker \<Rightarrow> ticker" where
  "answered t k = (if k = TickWait t then TickReady triggerInterval else k)"

definition cancelled :: "('t, 'h, 's, 'd) lc \<Rightarrow> bool" where
  "cancelled s \<longleftrightarrow> c_done (lc_ctx s) \<noteq> None"

definition lc_boot ::
  "('h, 's) svc \<Rightarrow> context_t \<Rightarrow> config \<Rightarrow> instant \<Rightarrow> ('t, 'h, 's) dstate \<Rightarrow> ('t, 'h, 's, 'd) lc" where
  "lc_boot S ctx cfg now d =
     (case daemon_boot S cfg now d of
        (startupDue, d1) \<Rightarrow>
          \<lparr>lc_pc = Starting, lc_now = now, lc_ctx = ctx\<lparr>c_done := None\<rparr>,
           lc_tick = (if Mode cfg = modeBuiltin
                      then TickReady (if startupDue then triggerStartup else triggerInterval) else TickOff),
           lc_open = True, lc_queue = [], lc_exec = ExIdle, lc_d = d1, lc_segs = no_segments, lc_sent = []\<rparr>)"

text \<open>All instants at which a job reads the clock lie between the start and the end of its run.\<close>

definition phase_instants :: "phase_clock \<Rightarrow> instant list" where
  "phase_instants c = (case pc_samples c of (t1, t2, t3) \<Rightarrow> [pc_ctx c, pc_start c, t1, t2, t3])"

definition during :: "instant \<Rightarrow> instant \<Rightarrow> ('t, 'd) jobenv \<Rightarrow> bool" where
  "during t0 t1 E \<longleftrightarrow>
     list_all (\<lambda>t. t0 \<le> t \<and> t \<le> t1)
       (phase_instants (je_scanClock E) @ [je_actionCheck E] @ phase_instants (je_actionClock E))"

text \<open>What a record says: the health it set, if it set any.\<close>

definition verdict :: "ctxerr option \<Rightarrow> bool \<Rightarrow> goerr option \<Rightarrow> bool option" where
  "verdict ctxErr did_run err =
     (case jobHealthSignal ctxErr did_run err of (set_it, healthy) \<Rightarrow> if set_it then Some healthy else None)"

subsection \<open>Transitions\<close>

text \<open>
  What can be observed: a request is accepted, its outcome recorded, it is answered, with the outcome of its
  run or without a run; the context ends, the drain begins, the queue is closed, \<open>runDaemon\<close> returns.
\<close>

datatype obs =
    Accepted bytes
  | Recorded bytes "bool option"
  | Answered bytes "Outcome option"
  | Cancelled
  | DrainBegun
  | Closed
  | Finished

text \<open>\<open>ext\<close> is the trigger label of the server, \<open>trigger.TriggerExternal\<close>.\<close>

inductive lstep ::
  "('h, 's) svc \<Rightarrow> context_t \<Rightarrow> config \<Rightarrow> int \<Rightarrow> bytes \<Rightarrow> bool \<Rightarrow> obs option
     \<Rightarrow> ('t, 'h, 's, 'd) lc \<Rightarrow> ('t, 'h, 's, 'd) lc \<Rightarrow> bool"
  for S ctx cfg uid ext due where
  clock: "lc_now s \<le> n \<Longrightarrow> lstep S ctx cfg uid ext due None s (s\<lparr>lc_now := n\<rparr>)"
| cancel: "\<not> cancelled s \<Longrightarrow>
    lstep S ctx cfg uid ext due (Some Cancelled) s (s\<lparr>lc_ctx := (lc_ctx s)\<lparr>c_done := Some (lc_now s, Canceled)\<rparr>\<rparr>)"
| started: "lc_pc s = Starting \<Longrightarrow>
    lstep S ctx cfg uid ext due None s (s\<lparr>lc_pc := Serving, lc_d := container_started cfg uid due (lc_d s)\<rparr>)"
| notice: "lc_pc s = Serving \<Longrightarrow> cancelled s \<Longrightarrow>
    lstep S ctx cfg uid ext due None s (s\<lparr>lc_pc := Noticed, lc_d := shutting_down ctx (lc_d s)\<rparr>)"
| drain: "lc_pc s = Noticed \<Longrightarrow>
    lstep S ctx cfg uid ext due (Some DrainBegun) s (s\<lparr>lc_pc := Draining, lc_d := begin_drain S (lc_d s)\<rparr>)"
| close_queue: "lc_pc s = Draining \<Longrightarrow> lc_open s \<Longrightarrow>
    lstep S ctx cfg uid ext due (Some Closed) s (s\<lparr>lc_open := False\<rparr>)"
| join: "lc_pc s = Draining \<Longrightarrow> \<not> lc_open s \<Longrightarrow> lc_queue s = [] \<Longrightarrow> lc_exec s = ExIdle \<Longrightarrow> lc_tick s = TickOff \<Longrightarrow>
    lstep S ctx cfg uid ext due (Some Finished) s (s\<lparr>lc_pc := Stopped, lc_d := shutdown_complete (lc_d s)\<rparr>)"
| request: "lc_open s \<Longrightarrow> int (length (lc_queue s)) < queueCapacity \<Longrightarrow>
    lstep S ctx cfg uid ext due (Some (Accepted ext)) s (s\<lparr>lc_queue := lc_queue s @ [ext]\<rparr>)"
| queued: "lc_pc s \<noteq> Stopped \<Longrightarrow> lstep S ctx cfg uid ext due None s (happen S cfg Queued s)"
| tick_sent: "lc_tick s = TickReady t \<Longrightarrow> lc_open s \<Longrightarrow> int (length (lc_queue s)) < queueCapacity \<Longrightarrow>
    lstep S ctx cfg uid ext due (Some (Accepted t)) s
      (s\<lparr>lc_tick := TickWait t, lc_queue := lc_queue s @ [t], lc_sent := lc_sent s @ [t]\<rparr>)"
| tick_refused: "lc_tick s = TickReady t \<Longrightarrow> \<not> lc_open s \<or> queueCapacity \<le> int (length (lc_queue s)) \<Longrightarrow>
    lc_pc s \<noteq> Stopped \<Longrightarrow>
    lstep S ctx cfg uid ext due None s
      ((happen S cfg (TickRefused t e) s)\<lparr>lc_tick := TickReady triggerInterval, lc_sent := lc_sent s @ [t]\<rparr>)"
| tick_stop: "lc_tick s = TickReady triggerInterval \<Longrightarrow> cancelled s \<Longrightarrow>
    lstep S ctx cfg uid ext due None s (s\<lparr>lc_tick := TickOff\<rparr>)"
| take_request: "lc_queue s = t # ts \<Longrightarrow> lc_exec s = ExIdle \<Longrightarrow> lc_pc s \<noteq> Stopped \<Longrightarrow>
    lstep S ctx cfg uid ext due None s (s\<lparr>lc_exec := ExRunning t (lc_now s), lc_queue := ts\<rparr>)"
| job_ended: "lc_exec s = ExRunning (q_trigger q) t0 \<Longrightarrow> q_ctx q = lc_ctx s \<Longrightarrow> during t0 (lc_now s) (q_env q) \<Longrightarrow>
    fst (runFclonesJob (q_env q) (q_ctx q) cfg (q_trigger q) (ds_world (lc_d s))) = (did_run, err) \<Longrightarrow>
    lc_pc s \<noteq> Stopped \<Longrightarrow>
    lstep S ctx cfg uid ext due None s
      ((happen S cfg (JobEnded q) s)\<lparr>lc_exec := ExJudging (q_trigger q) t0 did_run err\<rparr>)"
| judged: "lc_exec s = ExJudging t t0 did_run err \<Longrightarrow> ce = ctx_Err (lc_ctx s) (lc_now s) \<Longrightarrow> lc_pc s \<noteq> Stopped \<Longrightarrow>
    lstep S ctx cfg uid ext due (Some (Recorded t (verdict ce did_run err))) s
      ((happen S cfg (OutcomeRecorded t ce did_run err) s)\<lparr>lc_exec := ExRecorded t t0 ce did_run err\<rparr>)"
| answer: "lc_exec s = ExRecorded t t0 ce did_run err \<Longrightarrow>
    lstep S ctx cfg uid ext due (Some (Answered t (Some (run_outcome did_run err (lc_now s - t0))))) s
      (s\<lparr>lc_exec := ExIdle, lc_tick := answered t (lc_tick s)\<rparr>)"
| refuse: "lc_queue s = t # ts \<Longrightarrow> lc_exec s = ExIdle \<Longrightarrow> cancelled s \<Longrightarrow>
    lstep S ctx cfg uid ext due (Some (Answered t None)) s
      (s\<lparr>lc_queue := ts, lc_tick := answered t (lc_tick s)\<rparr>)"

text \<open>The runs of a daemon, by what is observed, and the states it can be in.\<close>

definition lrun ::
  "('h, 's) svc \<Rightarrow> context_t \<Rightarrow> config \<Rightarrow> int \<Rightarrow> bytes \<Rightarrow> instant \<Rightarrow> ('t, 'h, 's) dstate \<Rightarrow> obs list
     \<Rightarrow> ('t, 'h, 's, 'd) lc \<Rightarrow> bool" where
  "lrun S ctx cfg uid ext now d =
     machine_run (lstep S ctx cfg uid ext (fst (daemon_boot S cfg now d))) (lc_boot S ctx cfg now d)"

definition lreach ::
  "('h, 's) svc \<Rightarrow> context_t \<Rightarrow> config \<Rightarrow> int \<Rightarrow> bytes \<Rightarrow> instant \<Rightarrow> ('t, 'h, 's) dstate
     \<Rightarrow> ('t, 'h, 's, 'd) lc \<Rightarrow> bool" where
  "lreach S ctx cfg uid ext now d s \<longleftrightarrow> (\<exists>os. lrun S ctx cfg uid ext now d os s)"

definition lmove ::
  "('h, 's) svc \<Rightarrow> context_t \<Rightarrow> config \<Rightarrow> int \<Rightarrow> bytes \<Rightarrow> bool \<Rightarrow> ('t, 'h, 's, 'd) lc \<Rightarrow> ('t, 'h, 's, 'd) lc \<Rightarrow> bool" where
  "lmove S ctx cfg uid ext due s s' \<longleftrightarrow> (\<exists>l. lstep S ctx cfg uid ext due l s s')"

lemma happen_frame [simp]:
  "lc_pc (happen S cfg e s) = lc_pc s" "lc_now (happen S cfg e s) = lc_now s" "lc_ctx (happen S cfg e s) = lc_ctx s"
  "lc_tick (happen S cfg e s) = lc_tick s" "lc_open (happen S cfg e s) = lc_open s"
  "lc_queue (happen S cfg e s) = lc_queue s" "lc_exec (happen S cfg e s) = lc_exec s"
  "lc_sent (happen S cfg e s) = lc_sent s" "lc_d (happen S cfg e s) = dev_step S cfg (lc_d s) e"
  "lc_segs (happen S cfg e s) = in_segment (lc_pc s) e (lc_segs s)"
  by (simp_all add: happen_def)

lemma lreach_boot: "lreach S ctx cfg uid ext now d (lc_boot S ctx cfg now d)"
  unfolding lreach_def lrun_def by (rule exI, rule run_start)

lemma lreach_move:
  assumes "lreach S ctx cfg uid ext now d s" "lstep S ctx cfg uid ext (fst (daemon_boot S cfg now d)) l s s'"
  shows "lreach S ctx cfg uid ext now d s'"
proof -
  obtain os where "lrun S ctx cfg uid ext now d os s" using assms(1) by (auto simp: lreach_def)
  then have r: "machine_run (lstep S ctx cfg uid ext (fst (daemon_boot S cfg now d))) (lc_boot S ctx cfg now d) os s"
    by (simp add: lrun_def)
  show ?thesis
  proof (cases l)
    case None
    show ?thesis unfolding lreach_def lrun_def by (rule exI, rule run_silent [OF r assms(2) [unfolded None]])
  next
    case (Some o1)
    show ?thesis unfolding lreach_def lrun_def by (rule exI, rule run_seen [OF r assms(2) [unfolded Some]])
  qed
qed

lemma lreach_moves:
  assumes "(lmove S ctx cfg uid ext (fst (daemon_boot S cfg now d)))\<^sup>*\<^sup>* s s'" "lreach S ctx cfg uid ext now d s"
  shows "lreach S ctx cfg uid ext now d s'"
  using assms by (induction rule: rtranclp_induct) (auto simp: lmove_def intro: lreach_move)

text \<open>An invariant holds in every state of a daemon.\<close>

lemma lreach_inv:
  assumes "lreach S ctx cfg uid ext now d s" "P (lc_boot S ctx cfg now d)"
    and "\<And>l s s'. lstep S ctx cfg uid ext (fst (daemon_boot S cfg now d)) l s s' \<Longrightarrow> P s \<Longrightarrow> P s'"
  shows "P s"
proof -
  obtain os where "machine_run (lstep S ctx cfg uid ext (fst (daemon_boot S cfg now d))) (lc_boot S ctx cfg now d) os s"
    using assms(1) by (auto simp: lreach_def lrun_def)
  then show ?thesis by (rule machine_run_keeps [where P = P, OF _ assms(2,3)])
qed

subsection \<open>The sequential daemon\<close>

text \<open>What the state must be at a point of the main flow, by the history.\<close>

definition replay ::
  "('h, 's) svc \<Rightarrow> context_t \<Rightarrow> config \<Rightarrow> int \<Rightarrow> bool \<Rightarrow> ('t, 'd) segments \<Rightarrow> ('t, 'h, 's) dstate \<Rightarrow> pc
     \<Rightarrow> ('t, 'h, 's) dstate" where
  "replay S ctx cfg uid due sg d p =
     (let d1 = foldl (dev_step S cfg) d (sg_start sg);
          d2 = foldl (dev_step S cfg) (container_started cfg uid due d1) (sg_serve sg);
          d3 = foldl (dev_step S cfg) (shutting_down ctx d2) (sg_notice sg);
          d4 = foldl (dev_step S cfg) (begin_drain S d3) (sg_drain sg) in
      case p of Starting \<Rightarrow> d1 | Serving \<Rightarrow> d2 | Noticed \<Rightarrow> d3 | Draining \<Rightarrow> d4 | Stopped \<Rightarrow> shutdown_complete d4)"

definition history_ok ::
  "('h, 's) svc \<Rightarrow> context_t \<Rightarrow> config \<Rightarrow> int \<Rightarrow> bool \<Rightarrow> ('t, 'h, 's) dstate \<Rightarrow> ('t, 'h, 's, 'd) lc \<Rightarrow> bool" where
  "history_ok S ctx cfg uid due d s \<longleftrightarrow>
     lc_d s = replay S ctx cfg uid due (lc_segs s) d (lc_pc s) \<and>
     (lc_pc s = Starting \<longrightarrow> sg_serve (lc_segs s) = []) \<and>
     (lc_pc s \<in> {Starting, Serving} \<longrightarrow> sg_notice (lc_segs s) = []) \<and>
     (lc_pc s \<in> {Starting, Serving, Noticed} \<longrightarrow> sg_drain (lc_segs s) = [])"

lemma history_happen:
  "history_ok S ctx cfg uid due d s \<Longrightarrow> lc_pc s \<noteq> Stopped \<Longrightarrow> history_ok S ctx cfg uid due d (happen S cfg e s)"
  by (cases "lc_pc s") (auto simp: history_ok_def replay_def Let_def)

lemma history_step:
  assumes "lstep S ctx cfg uid ext due l s s'" "history_ok S ctx cfg uid due d s"
  shows "history_ok S ctx cfg uid due d s'"
  using assms
proof cases
  case (tick_refused t e)
  then show ?thesis using history_happen [OF assms(2), of "TickRefused t e"] by (simp add: history_ok_def)
next
  case (job_ended q t0 did_run err)
  then show ?thesis using history_happen [OF assms(2), of "JobEnded q"] by (simp add: history_ok_def)
next
  case (judged t t0 did_run err ce)
  then show ?thesis using history_happen [OF assms(2), of "OutcomeRecorded t ce did_run err"]
    by (simp add: history_ok_def)
next
  case queued
  then show ?thesis using history_happen [OF assms(2)] by blast
qed (use assms(2) in \<open>auto simp: history_ok_def replay_def Let_def\<close>)

lemma lreach_history:
  assumes "lreach S ctx cfg uid ext now d s"
  shows "history_ok S ctx cfg uid (fst (daemon_boot S cfg now d)) (snd (daemon_boot S cfg now d)) s"
  using assms
proof (rule lreach_inv)
  show "history_ok S ctx cfg uid (fst (daemon_boot S cfg now d)) (snd (daemon_boot S cfg now d)) (lc_boot S ctx cfg now d)"
    by (simp add: history_ok_def lc_boot_def replay_def no_segments_def Let_def split: prod.split)
qed (rule history_step)

text \<open>
  \<open>runDaemon\<close> of the sequential model covers every interleaving: a daemon that has stopped is in the state in
  which \<open>runDaemon\<close> returns, for the events its history has between the statements.
\<close>

lemma lifecycle_sequential:
  "lreach S ctx cfg uid ext now d s \<Longrightarrow> lc_pc s = Stopped \<Longrightarrow>
     runDaemon S ctx cfg None now uid (lc_segs s) d = (None, lc_d s)"
  using lreach_history [of S ctx cfg uid ext now d s]
  by (simp add: runDaemon_def history_ok_def replay_def Let_def split: prod.splits)

subsection \<open>Requests\<close>

definition scheduled :: "bytes \<Rightarrow> bool" where
  "scheduled t \<longleftrightarrow> t = triggerStartup \<or> t = triggerInterval"

text \<open>The accepted requests without an answer, the one in service first.\<close>

definition in_service :: "executor \<Rightarrow> bytes list" where
  "in_service x = (case x of ExIdle \<Rightarrow> [] | ExRunning t _ \<Rightarrow> [t] | ExJudging t _ _ _ \<Rightarrow> [t] | ExRecorded t _ _ _ _ \<Rightarrow> [t])"

lemma in_service_simps [simp]:
  "in_service ExIdle = []" "in_service (ExRunning t t0) = [t]" "in_service (ExJudging t t0 r e) = [t]"
  "in_service (ExRecorded t t0 ce r e) = [t]"
  by (simp_all add: in_service_def)

lemma in_service_Nil: "in_service x = [] \<longleftrightarrow> x = ExIdle"
  by (simp add: in_service_def split: executor.split)

definition outstanding :: "('t, 'h, 's, 'd) lc \<Rightarrow> bytes multiset" where
  "outstanding s = mset (in_service (lc_exec s) @ lc_queue s)"

text \<open>What the ticker will submit next, and what it waits for.\<close>

definition ticks_next :: "ticker \<Rightarrow> bytes list" where
  "ticks_next k = (case k of TickReady t \<Rightarrow> [t] | _ \<Rightarrow> [])"

definition ticks_wait :: "ticker \<Rightarrow> bytes multiset" where
  "ticks_wait k = (case k of TickWait t \<Rightarrow> {#t#} | _ \<Rightarrow> {#})"

text \<open>
  The queue keeps its capacity; of the requests that are waiting or in service only the one the ticker
  waits for is scheduled; a stopped daemon has answered everything.
\<close>

definition requests_ok :: "('t, 'h, 's, 'd) lc \<Rightarrow> bool" where
  "requests_ok s \<longleftrightarrow>
     int (length (lc_queue s)) \<le> queueCapacity \<and>
     filter_mset scheduled (outstanding s) = ticks_wait (lc_tick s) \<and>
     (lc_pc s = Stopped \<longrightarrow> \<not> lc_open s \<and> outstanding s = {#} \<and> lc_tick s = TickOff)"

text \<open>The ticker submits what \<open>startTicker\<close> says, and nothing but scheduled triggers.\<close>

definition ticks_ok :: "config \<Rightarrow> bool \<Rightarrow> ('t, 'h, 's, 'd) lc \<Rightarrow> bool" where
  "ticks_ok cfg due s \<longleftrightarrow>
     (\<exists>n. lc_sent s @ ticks_next (lc_tick s) = startTicker (Mode cfg = modeBuiltin) due n) \<and>
     (lc_tick s \<noteq> TickOff \<longrightarrow> Mode cfg = modeBuiltin) \<and>
     (\<forall>t. lc_tick s \<in> {TickReady t, TickWait t} \<longrightarrow> scheduled t)"

lemma startTicker_more: "startTicker True due n @ [triggerInterval] = startTicker True due (Suc n)"
  by (simp add: startTicker_def replicate_append_same)

lemma startTicker_less: "xs @ [triggerInterval] = startTicker True due n \<Longrightarrow> \<exists>m. xs = startTicker True due m"
proof (cases n)
  case 0
  assume "xs @ [triggerInterval] = startTicker True due n"
  with 0 show ?thesis by (auto simp: startTicker_def triggerStartup_def triggerInterval_def split: if_splits)
next
  case (Suc m)
  assume "xs @ [triggerInterval] = startTicker True due n"
  then have "xs = startTicker True due m" by (simp add: Suc flip: startTicker_more)
  then show ?thesis by blast
qed

lemma answered_next:
  "\<exists>n. xs @ ticks_next k = startTicker en due n \<Longrightarrow> k \<noteq> TickOff \<longrightarrow> en \<Longrightarrow>
     \<exists>n. xs @ ticks_next (answered t k) = startTicker en due n"
  using startTicker_more by (cases "k = TickWait t") (auto simp: answered_def ticks_next_def)

lemma answered_wait:
  assumes "filter_mset scheduled M = ticks_wait k" "t \<in># M"
  shows "filter_mset scheduled (M - {#t#}) = ticks_wait (answered t k)"
proof (cases "scheduled t")
  case True
  then have "t \<in># ticks_wait k" using assms by (metis count_filter_mset count_greater_zero_iff)
  then have "k = TickWait t" by (auto simp: ticks_wait_def split: ticker.splits)
  with assms True show ?thesis by (simp add: ticks_wait_def answered_def)
next
  case False
  then have "t \<notin># ticks_wait k" using assms by (metis mem_Collect_eq set_mset_filter)
  then have "k \<noteq> TickWait t" by (auto simp: ticks_wait_def)
  with assms False show ?thesis by (simp add: answered_def filter_diff_mset)
qed

lemma ticks_step:
  assumes "lstep S ctx cfg uid ext due l s s'" "ticks_ok cfg due s"
  shows "ticks_ok cfg due s'"
  using assms(1)
proof cases
  case (tick_refused t e)
  then obtain n where m: "Mode cfg = modeBuiltin" "lc_sent s @ [t] = startTicker True due n"
    using assms(2) by (auto simp: ticks_ok_def ticks_next_def)
  then have "lc_sent s @ [t, triggerInterval] = startTicker True due (Suc n)"
    using startTicker_more [of due n] by (metis append.assoc append_Cons append_Nil)
  then show ?thesis using tick_refused m(1)
    by (auto simp: ticks_ok_def ticks_next_def scheduled_def)
next
  case (tick_stop)
  then have "Mode cfg = modeBuiltin" "\<exists>n. lc_sent s @ [triggerInterval] = startTicker True due n"
    using assms(2) by (auto simp: ticks_ok_def ticks_next_def)
  then show ?thesis using tick_stop startTicker_less by (auto simp: ticks_ok_def ticks_next_def)
next
  case (answer t t0 ce did_run err)
  then show ?thesis using assms(2) answered_next [of "lc_sent s" "lc_tick s" "Mode cfg = modeBuiltin" due t]
    by (auto simp: ticks_ok_def answered_def scheduled_def)
next
  case (refuse t ts)
  then show ?thesis using assms(2) answered_next [of "lc_sent s" "lc_tick s" "Mode cfg = modeBuiltin" due t]
    by (auto simp: ticks_ok_def answered_def scheduled_def)
qed (use assms(2) in \<open>auto simp: ticks_ok_def ticks_next_def\<close>)

lemma answered_head:
  "filter_mset scheduled (outstanding s) = ticks_wait k \<Longrightarrow> outstanding s = add_mset t M \<Longrightarrow>
     filter_mset scheduled M = ticks_wait (answered t k)"
  using answered_wait [of "outstanding s" k t] by simp

lemma requests_step:
  assumes "lstep S ctx cfg uid ext due l s s'" "requests_ok s" "ticks_ok cfg due s" "\<not> scheduled ext"
  shows "requests_ok s'"
  using assms(1)
proof cases
  case (tick_sent t)
  then have "scheduled t" using assms(3) by (simp add: ticks_ok_def)
  with tick_sent assms(2) show ?thesis by (auto simp: requests_ok_def outstanding_def ticks_wait_def)
next
  case (answer t t0 ce did_run err)
  then have "outstanding s = add_mset t (outstanding s')" by (simp add: outstanding_def)
  then show ?thesis using answer assms(2) answered_head [of s "lc_tick s" t]
    by (auto simp: requests_ok_def)
next
  case (refuse t ts)
  then have "outstanding s = add_mset t (outstanding s')" by (simp add: outstanding_def)
  then show ?thesis using refuse assms(2) answered_head [of s "lc_tick s" t]
    by (auto simp: requests_ok_def)
next
  case (take_request t ts)
  then have "outstanding s' = outstanding s" by (simp add: outstanding_def)
  with take_request assms(2) show ?thesis by (auto simp: requests_ok_def)
next
  case (job_ended q t0 did_run err)
  then have "outstanding s' = outstanding s" by (simp add: outstanding_def)
  with job_ended assms(2) show ?thesis by (auto simp: requests_ok_def)
next
  case (judged t t0 did_run err ce)
  then have "outstanding s' = outstanding s" by (simp add: outstanding_def)
  with judged assms(2) show ?thesis by (auto simp: requests_ok_def)
qed (use assms(2,4) in \<open>auto simp: requests_ok_def outstanding_def ticks_wait_def split: ticker.splits\<close>)

lemma boot_requests:
  "requests_ok (lc_boot S ctx cfg now d) \<and> ticks_ok cfg (fst (daemon_boot S cfg now d)) (lc_boot S ctx cfg now d)"
proof -
  obtain due d1 where b: "daemon_boot S cfg now d = (due, d1)" by fastforce
  have m: "due \<Longrightarrow> Mode cfg = modeBuiltin"
    using b by (auto simp: daemon_boot_def Let_def split: prod.splits if_splits)
  define n where "n = (if Mode cfg = modeBuiltin \<and> \<not> due then 1 else 0 :: nat)"
  have "requests_ok (lc_boot S ctx cfg now d)"
    by (simp add: requests_ok_def lc_boot_def b outstanding_def ticks_wait_def queueCapacity_def)
  moreover have "ticks_ok cfg due (lc_boot S ctx cfg now d)"
    using m unfolding ticks_ok_def
    by (intro conjI exI [of _ n]) (auto simp: n_def lc_boot_def b ticks_next_def startTicker_def scheduled_def)
  ultimately show ?thesis by (simp add: b)
qed

lemma lreach_requests:
  assumes "lreach S ctx cfg uid ext now d s" "\<not> scheduled ext"
  shows "requests_ok s \<and> ticks_ok cfg (fst (daemon_boot S cfg now d)) s"
  using assms(1) boot_requests by (rule lreach_inv) (use assms(2) requests_step ticks_step in blast)

subsection \<open>The shared state\<close>

definition shared_ok :: "('h, 's) svc \<Rightarrow> ('h \<Rightarrow> bool) \<Rightarrow> ('t, 'h, 's, 'd) lc \<Rightarrow> bool" where
  "shared_ok S draining s \<longleftrightarrow> \<not> w_locked (ds_world (lc_d s)) \<and>
     (lc_pc s \<in> {Draining, Stopped} \<longrightarrow> drained S draining (lc_d s))"

lemma main_frame [simp]:
  "ds_health (container_started cfg uid due d) = ds_health d" "ds_stamp (container_started cfg uid due d) = ds_stamp d"
  "ds_health (shutting_down ctx d) = ds_health d" "ds_stamp (shutting_down ctx d) = ds_stamp d"
  "ds_health (shutdown_complete d) = ds_health d" "ds_stamp (shutdown_complete d) = ds_stamp d"
  "ds_stamp (begin_drain S d) = ds_stamp d" "ds_world (begin_drain S d) = ds_world d"
  "w_locked (ds_world (container_started cfg uid due d)) = w_locked (ds_world d)"
  "w_locked (ds_world (shutting_down ctx d)) = w_locked (ds_world d)"
  "w_locked (ds_world (shutdown_complete d)) = w_locked (ds_world d)"
  by (simp_all add: container_started_def shutting_down_def begin_drain_def shutdown_complete_def)

lemma drained_frame [simp]:
  "drained S draining (shutdown_complete d) = drained S draining d"
  "drained S draining (begin_drain S d)"
  by (simp_all add: drained_def) (simp add: begin_drain_def latch_contract_def)

lemma shared_step:
  assumes "lstep S ctx cfg uid ext due l s s'" "shared_ok S draining s"
  shows "shared_ok S draining s'"
  using assms(1)
  by cases (use assms(2) in \<open>auto simp: shared_ok_def dev_step_unlocked drained_state.step_inv simp del: dev_step.simps\<close>)

lemma boot_unlocked: "w_locked (ds_world (snd (daemon_boot S cfg now d))) = w_locked (ds_world d)"
  by (simp add: daemon_boot_def Let_def split: prod.split)

lemma boot_stamp: "ds_stamp (snd (daemon_boot S cfg now d)) = ds_stamp d"
  by (simp add: daemon_boot_def Let_def split: prod.split)

lemma lreach_shared:
  assumes "lreach S ctx cfg uid ext now d s" "\<not> w_locked (ds_world d)"
  shows "shared_ok S draining s"
  using assms(1)
proof (rule lreach_inv)
  show "shared_ok S draining (lc_boot S ctx cfg now d)"
    using assms(2) boot_unlocked [of S cfg now d] by (auto simp: shared_ok_def lc_boot_def split: prod.splits)
qed (rule shared_step)

text \<open>
  C20. The daemon in every reachable state: the queue keeps its capacity; at most one scheduled request is
  waiting or in service, the one the ticker waits for; the scan lock is free between runs; from the
  drain on the marker is unhealthy; the ticker has submitted exactly what \<open>startTicker\<close> says, the
  startup scan first and only if it is due; and a stopped daemon has answered every request.
\<close>

theorem lifecycle_invariant:
  assumes "lreach S ctx cfg uid ext now d s" "\<not> w_locked (ds_world d)"
    and "ext \<noteq> triggerStartup" "ext \<noteq> triggerInterval" "latch_contract S draining"
  shows "int (length (lc_queue s)) \<le> queueCapacity \<and>
    size (filter_mset scheduled (outstanding s)) \<le> 1 \<and>
    \<not> w_locked (ds_world (lc_d s)) \<and>
    (lc_pc s = Draining \<or> lc_pc s = Stopped \<longrightarrow> \<not> sv_healthy S (ds_health (lc_d s))) \<and>
    (\<exists>n. lc_sent s @ ticks_next (lc_tick s) = startTicker (Mode cfg = modeBuiltin) (fst (daemon_boot S cfg now d)) n) \<and>
    (lc_pc s = Stopped \<longrightarrow> outstanding s = {#} \<and> lc_tick s = TickOff)"
proof -
  have r: "requests_ok s" "ticks_ok cfg (fst (daemon_boot S cfg now d)) s"
    using lreach_requests [OF assms(1)] assms(3,4) by (auto simp: scheduled_def)
  have s: "shared_ok S draining s" using lreach_shared [OF assms(1,2)] .
  have "size (ticks_wait k) \<le> 1" for k by (simp add: ticks_wait_def split: ticker.split)
  with r s assms(5) show ?thesis
    by (auto simp: requests_ok_def ticks_ok_def shared_ok_def drained_def)
qed

text \<open>
  Out-of-band runs leave the schedule alone: a daemon that is not in built-in mode never writes the
  stamp on the cache volume, whatever is requested and in whatever order things happen.
\<close>

lemma unscheduled_stamp_step:
  assumes "lstep S ctx cfg uid ext due l s s'" "requests_ok s" "lc_tick s = TickOff"
  shows "ds_stamp (lc_d s') = ds_stamp (lc_d s)"
  using assms(1)
proof cases
  case (judged t t0 did_run err ce)
  then have "t \<in># outstanding s" by (simp add: outstanding_def)
  then have "\<not> scheduled t"
    using assms(2,3) by (auto simp: requests_ok_def ticks_wait_def filter_mset_eq_conv)
  then show ?thesis using judged dev_step_stamp [of "OutcomeRecorded t ce did_run err" S cfg "lc_d s"]
    by (simp add: scheduled_def)
qed (auto simp: dev_step_stamp simp del: dev_step.simps)

theorem external_never_stamps:
  assumes "lreach S ctx cfg uid ext now d s" "Mode cfg \<noteq> modeBuiltin"
    and "ext \<noteq> triggerStartup" "ext \<noteq> triggerInterval"
  shows "ds_stamp (lc_d s) = ds_stamp d"
proof -
  have e: "\<not> scheduled ext" using assms(3,4) by (simp add: scheduled_def)
  have "requests_ok s \<and> ticks_ok cfg (fst (daemon_boot S cfg now d)) s \<and> ds_stamp (lc_d s) = ds_stamp d"
    using assms(1)
  proof (rule lreach_inv, goal_cases)
    case 1
    then show ?case
      using boot_requests [of S ctx cfg now d] boot_stamp [of S cfg now d] by (auto simp: lc_boot_def split: prod.splits)
  next
    case (2 l s s')
    then have "lc_tick s = TickOff" using assms(2) by (auto simp: ticks_ok_def)
    then show ?case
      using unscheduled_stamp_step [OF 2(1)] requests_step [OF 2(1)] ticks_step [OF 2(1)] 2(2) e by simp
  qed
  then show ?thesis by blast
qed

subsection \<open>Shutdown\<close>

text \<open>Some way of going on leads to the end; the steps of a shutdown, last one first.\<close>

definition can_stop ::
  "('h, 's) svc \<Rightarrow> context_t \<Rightarrow> config \<Rightarrow> int \<Rightarrow> bytes \<Rightarrow> bool \<Rightarrow> ('t, 'h, 's, 'd) lc \<Rightarrow> bool" where
  "can_stop S ctx cfg uid ext due s \<longleftrightarrow> (\<exists>s'. (lmove S ctx cfg uid ext due)\<^sup>*\<^sup>* s s' \<and> lc_pc s' = Stopped)"

lemma can_step:
  "lstep S ctx cfg uid ext due l s s' \<Longrightarrow> can_stop S ctx cfg uid ext due s' \<Longrightarrow> can_stop S ctx cfg uid ext due s"
  unfolding can_stop_def by (meson converse_rtranclp_into_rtranclp lmove_def)

lemma stop_idle:
  assumes "lc_pc s = Draining" "\<not> lc_open s" "lc_queue s = []" "lc_exec s = ExIdle" "lc_tick s = TickOff"
  shows "can_stop S ctx cfg uid ext due s"
  by (rule can_step [OF join [OF assms]]) (auto simp: can_stop_def)

lemma stop_ticker:
  fixes s :: "('t, 'h, 's, 'd) lc"
  assumes "lc_pc s = Draining" "\<not> lc_open s" "lc_queue s = []" "lc_exec s = ExIdle" "cancelled s"
    and "lc_tick s = TickReady t"
  shows "can_stop S ctx cfg uid ext due s"
proof -
  have stop: "can_stop S ctx cfg uid ext due u" if "lc_pc u = Draining" "\<not> lc_open u" "lc_queue u = []"
      "lc_exec u = ExIdle" "cancelled u" "lc_tick u = TickReady triggerInterval" for u :: "('t, 'h, 's, 'd) lc"
    by (rule can_step [OF tick_stop [OF that(6,5)]]) (rule stop_idle; simp add: that)
  show ?thesis
    by (rule can_step [OF tick_refused [OF assms(6), of S ctx cfg uid ext due "''closed''"]])
      (use assms in \<open>auto simp: cancelled_def intro!: stop\<close>)
qed

lemma stop_unbusy:
  assumes "lreach S ctx cfg uid ext now d s" "\<not> scheduled ext"
    and "lc_pc s = Draining" "\<not> lc_open s" "lc_queue s = []" "lc_exec s = ExIdle" "cancelled s"
  shows "can_stop S ctx cfg uid ext (fst (daemon_boot S cfg now d)) s"
proof (cases "lc_tick s")
  case (TickWait t)
  then show ?thesis
    using lreach_requests [OF assms(1,2)] assms(5,6) by (simp add: requests_ok_def outstanding_def ticks_wait_def)
qed (use assms stop_idle stop_ticker in blast)+

text \<open>With the executor idle, what waits in the queue may be answered without runs.\<close>

lemma stop_queue:
  "lc_queue s = ts \<Longrightarrow> lc_exec s = ExIdle \<Longrightarrow> lreach S ctx cfg uid ext now d s \<Longrightarrow> \<not> scheduled ext \<Longrightarrow>
     lc_pc s = Draining \<Longrightarrow> \<not> lc_open s \<Longrightarrow> cancelled s \<Longrightarrow>
     can_stop S ctx cfg uid ext (fst (daemon_boot S cfg now d)) s"
proof (induction ts arbitrary: s)
  case Nil
  show ?case by (rule stop_unbusy [OF Nil(3-6) Nil(1,2) Nil(7)])
next
  case (Cons t ts)
  note f = refuse [OF Cons.prems(1,2) Cons.prems(7), of S ctx cfg uid ext "fst (daemon_boot S cfg now d)"]
  show ?case
    by (rule can_step [OF f], rule Cons.IH [OF _ _ lreach_move [OF Cons.prems(3) f] Cons.prems(4)])
      (use Cons.prems in \<open>auto simp: cancelled_def\<close>)
qed

lemma stop_recorded:
  assumes "lreach S ctx cfg uid ext now d s" "\<not> scheduled ext"
    and "lc_pc s = Draining" "\<not> lc_open s" "cancelled s" "lc_exec s = ExRecorded t t0 ce r err"
  shows "can_stop S ctx cfg uid ext (fst (daemon_boot S cfg now d)) s"
proof -
  note f = answer [OF assms(6), of S ctx cfg uid ext "fst (daemon_boot S cfg now d)"]
  show ?thesis
    by (rule can_step [OF f], rule stop_queue [OF refl _ lreach_move [OF assms(1) f] assms(2)])
      (use assms in \<open>auto simp: cancelled_def\<close>)
qed

lemma stop_judging:
  assumes "lreach S ctx cfg uid ext now d s" "\<not> scheduled ext"
    and "lc_pc s = Draining" "\<not> lc_open s" "cancelled s" "lc_exec s = ExJudging t t0 r err"
  shows "can_stop S ctx cfg uid ext (fst (daemon_boot S cfg now d)) s"
proof -
  have "lc_pc s \<noteq> Stopped" using assms(3) by simp
  note f = judged [OF assms(6) refl this, of S ctx cfg uid ext "fst (daemon_boot S cfg now d)"]
  show ?thesis
    by (rule can_step [OF f], rule stop_recorded [OF lreach_move [OF assms(1) f] assms(2)])
      (use assms in \<open>auto simp: cancelled_def\<close>)
qed

text \<open>A job that starts and ends now, to get on with.\<close>

definition instant_request :: "bytes \<Rightarrow> context_t \<Rightarrow> instant \<Rightarrow> ('t, 'd) request" where
  "instant_request t ctx now =
     (let clock = \<lparr>pc_ctx = now, pc_start = now, pc_samples = (now, now, now)\<rparr> in
      \<lparr>q_trigger = t, q_ctx = ctx,
       q_env = undefined\<lparr>je_scanClock := clock, je_actionCheck := now, je_actionClock := clock\<rparr>,
       q_errAt = now, q_dur = 0\<rparr>)"

lemma instant_during: "t0 \<le> now \<Longrightarrow> during t0 now (q_env (instant_request t ctx now))"
  by (simp add: instant_request_def during_def phase_instants_def Let_def)

lemma stop_running:
  fixes s :: "('t, 'h, 's, 'd) lc"
  assumes "lreach S ctx cfg uid ext now d s" "\<not> scheduled ext"
    and "lc_pc s = Draining" "\<not> lc_open s" "cancelled s" "lc_exec s = ExRunning t t0" "t0 \<le> lc_now s"
  shows "can_stop S ctx cfg uid ext (fst (daemon_boot S cfg now d)) s"
proof -
  define q :: "('t, 'd) request" where "q = instant_request t (lc_ctx s) (lc_now s)"
  have q: "q_trigger q = t" "q_ctx q = lc_ctx s" by (simp_all add: q_def instant_request_def Let_def)
  have x: "lc_exec s = ExRunning (q_trigger q) t0" using assms(6) q by simp
  have w: "during t0 (lc_now s) (q_env q)" using instant_during [OF assms(7)] by (simp add: q_def)
  obtain r err where j: "fst (runFclonesJob (q_env q) (q_ctx q) cfg (q_trigger q) (ds_world (lc_d s))) = (r, err)"
    by fastforce
  have "lc_pc s \<noteq> Stopped" using assms(3) by simp
  note f = job_ended [OF x q(2) w j this, of S ctx uid ext "fst (daemon_boot S cfg now d)"]
  show ?thesis
    by (rule can_step [OF f], rule stop_judging [OF lreach_move [OF assms(1) f] assms(2)])
      (use assms in \<open>auto simp: cancelled_def\<close>)
qed

text \<open>The clock: the context ended in the past, and so did the run in service begin.\<close>

definition clock_ok :: "('t, 'h, 's, 'd) lc \<Rightarrow> bool" where
  "clock_ok s \<longleftrightarrow> (\<forall>t e. c_done (lc_ctx s) = Some (t, e) \<longrightarrow> t \<le> lc_now s) \<and>
     (\<forall>t t0. lc_exec s = ExRunning t t0 \<longrightarrow> t0 \<le> lc_now s)"

lemma clock_step: "lstep S ctx cfg uid ext due l s s' \<Longrightarrow> clock_ok s \<Longrightarrow> clock_ok s'"
  by (cases rule: lstep.cases) (auto simp: clock_ok_def)

lemma boot_clock: "clock_ok (lc_boot S ctx cfg now d)"
  by (simp add: clock_ok_def lc_boot_def split: prod.split)

lemma lreach_clock: "lreach S ctx cfg uid ext now d s \<Longrightarrow> clock_ok s"
  by (rule lreach_inv [where P = clock_ok, OF _ boot_clock clock_step])

lemma stop_busy:
  assumes "lreach S ctx cfg uid ext now d s" "\<not> scheduled ext"
    and "lc_pc s = Draining" "\<not> lc_open s" "cancelled s"
  shows "can_stop S ctx cfg uid ext (fst (daemon_boot S cfg now d)) s"
proof (cases "lc_exec s")
  case ExIdle
  then show ?thesis by (rule stop_queue [OF refl _ assms])
next
  case (ExRunning t t0)
  then have "t0 \<le> lc_now s" using lreach_clock [OF assms(1)] by (auto simp: clock_ok_def)
  then show ?thesis by (rule stop_running [OF assms ExRunning])
next
  case (ExJudging t t0 r err)
  then show ?thesis by (rule stop_judging [OF assms])
next
  case (ExRecorded t t0 ce r err)
  then show ?thesis by (rule stop_recorded [OF assms])
qed

lemma stop_draining:
  assumes "lreach S ctx cfg uid ext now d s" "\<not> scheduled ext" "lc_pc s = Draining" "cancelled s"
  shows "can_stop S ctx cfg uid ext (fst (daemon_boot S cfg now d)) s"
proof (cases "lc_open s")
  case True
  note f = close_queue [OF assms(3) True, of S ctx cfg uid ext "fst (daemon_boot S cfg now d)"]
  show ?thesis
    by (rule can_step [OF f], rule stop_busy [OF lreach_move [OF assms(1) f] assms(2)])
      (use assms in \<open>auto simp: cancelled_def\<close>)
next
  case False
  then show ?thesis using stop_busy [OF assms(1-3)] assms(4) by blast
qed

lemma stop_noticed:
  assumes "lreach S ctx cfg uid ext now d s" "\<not> scheduled ext" "lc_pc s = Noticed" "cancelled s"
  shows "can_stop S ctx cfg uid ext (fst (daemon_boot S cfg now d)) s"
proof -
  note f = drain [OF assms(3), of S ctx cfg uid ext "fst (daemon_boot S cfg now d)"]
  show ?thesis
    by (rule can_step [OF f], rule stop_draining [OF lreach_move [OF assms(1) f] assms(2)])
      (use assms in \<open>auto simp: cancelled_def\<close>)
qed

lemma stop_serving:
  assumes "lreach S ctx cfg uid ext now d s" "\<not> scheduled ext" "lc_pc s = Serving" "cancelled s"
  shows "can_stop S ctx cfg uid ext (fst (daemon_boot S cfg now d)) s"
proof -
  note f = notice [OF assms(3,4), of S ctx cfg uid ext "fst (daemon_boot S cfg now d)"]
  show ?thesis
    by (rule can_step [OF f], rule stop_noticed [OF lreach_move [OF assms(1) f] assms(2)])
      (use assms in \<open>auto simp: cancelled_def\<close>)
qed

lemma stop_starting:
  assumes "lreach S ctx cfg uid ext now d s" "\<not> scheduled ext" "lc_pc s = Starting" "cancelled s"
  shows "can_stop S ctx cfg uid ext (fst (daemon_boot S cfg now d)) s"
proof -
  note f = started [OF assms(3), of S ctx cfg uid ext "fst (daemon_boot S cfg now d)"]
  show ?thesis
    by (rule can_step [OF f], rule stop_serving [OF lreach_move [OF assms(1) f] assms(2)])
      (use assms in \<open>auto simp: cancelled_def\<close>)
qed

lemma stop_stopped: "lc_pc s = Stopped \<Longrightarrow> can_stop S ctx cfg uid ext due s"
  by (auto simp: can_stop_def)

lemma stop_done:
  assumes "lreach S ctx cfg uid ext now d s" "\<not> scheduled ext" "cancelled s"
  shows "can_stop S ctx cfg uid ext (fst (daemon_boot S cfg now d)) s"
proof (cases "lc_pc s")
  case Starting
  show ?thesis by (rule stop_starting [OF assms(1,2) Starting assms(3)])
next
  case Serving
  show ?thesis by (rule stop_serving [OF assms(1,2) Serving assms(3)])
next
  case Noticed
  show ?thesis by (rule stop_noticed [OF assms(1,2) Noticed assms(3)])
next
  case Draining
  show ?thesis by (rule stop_draining [OF assms(1,2) Draining assms(3)])
next
  case Stopped
  then show ?thesis by (rule stop_stopped)
qed

lemma reach_stopped:
  assumes "lreach S ctx cfg uid ext now d s" "\<not> scheduled ext"
  shows "\<exists>s'. (lmove S ctx cfg uid ext (fst (daemon_boot S cfg now d)))\<^sup>*\<^sup>* s s' \<and> lreach S ctx cfg uid ext now d s' \<and>
    lc_pc s' = Stopped"
proof -
  have "can_stop S ctx cfg uid ext (fst (daemon_boot S cfg now d)) s"
  proof (cases "cancelled s")
    case True
    then show ?thesis by (rule stop_done [OF assms])
  next
    case False
    note c = cancel [OF False, of S ctx cfg uid ext "fst (daemon_boot S cfg now d)"]
    show ?thesis
      by (rule can_step [OF c], rule stop_done [OF lreach_move [OF assms(1) c] assms(2)]) (simp add: cancelled_def)
  qed
  then obtain s' where s': "(lmove S ctx cfg uid ext (fst (daemon_boot S cfg now d)))\<^sup>*\<^sup>* s s'" "lc_pc s' = Stopped"
    by (auto simp: can_stop_def)
  with lreach_moves [OF s'(1) assms(1)] show ?thesis by blast
qed

text \<open>
  C21. No deadlock: from every state a daemon can be in, with whatever waits in the queue, is in service or is
  awaited by the ticker, there is a way to the end of the shutdown, in which everything accepted is
  answered.
\<close>

theorem lifecycle_can_stop:
  assumes "lreach S ctx cfg uid ext now d s" "ext \<noteq> triggerStartup" "ext \<noteq> triggerInterval"
  shows "\<exists>s'. (lmove S ctx cfg uid ext (fst (daemon_boot S cfg now d)))\<^sup>*\<^sup>* s s' \<and> lc_pc s' = Stopped \<and>
    lc_queue s' = [] \<and> lc_exec s' = ExIdle"
proof -
  have e: "\<not> scheduled ext" using assms(2,3) by (simp add: scheduled_def)
  obtain s' where s': "(lmove S ctx cfg uid ext (fst (daemon_boot S cfg now d)))\<^sup>*\<^sup>* s s'"
      "lreach S ctx cfg uid ext now d s'" "lc_pc s' = Stopped"
    using reach_stopped [OF assms(1) e] by blast
  then have "outstanding s' = {#}" using lreach_requests [OF s'(2) e] by (auto simp: requests_ok_def)
  with s' show ?thesis by (auto simp: outstanding_def in_service_Nil)
qed

subsection \<open>The specification\<close>

text \<open>
  What the daemon promises to those who send it requests and to those who read its marker, without its
  goroutines: the requests accepted and not yet answered, oldest first; whether the outcome of the oldest
  is recorded, and what it said; the marker and the stamp; how far the shutdown is.
\<close>

record 's board =
  bd_pending :: "bytes list"
  bd_verdict :: "bool option option"
  bd_marker :: bool
  bd_stamp :: 's
  bd_cancelled :: bool
  bd_draining :: bool
  bd_open :: bool
  bd_stopped :: bool

text \<open>
  A request is accepted until the queue is closed, as long as at most the capacity is pending, and a
  scheduled one only if no other is pending. The outcome of the oldest request is recorded at most once; if
  that says something, the context is alive, and the marker and for a scheduled request the stamp take it
  over. A request is answered in its turn, with what was recorded of it; an outcome that was not judged is
  a success that names its reason (the skip), unless the context has ended; without a run a request is
  answered only when the context has ended. The drain turns the marker off, and the daemon stops only when
  it accepts nothing more and owes no answer.
\<close>

inductive promise :: "('h, 's) svc \<Rightarrow> obs \<Rightarrow> 's board \<Rightarrow> 's board \<Rightarrow> bool" for S where
  accept: "bd_open b \<Longrightarrow> int (length (bd_pending b)) \<le> queueCapacity \<Longrightarrow>
    (scheduled t \<Longrightarrow> \<not> list_ex scheduled (bd_pending b)) \<Longrightarrow>
    promise S (Accepted t) b (b\<lparr>bd_pending := bd_pending b @ [t]\<rparr>)"
| judge: "bd_pending b = t # ts \<Longrightarrow> bd_verdict b = None \<Longrightarrow> \<not> bd_cancelled b \<Longrightarrow>
    promise S (Recorded t (Some ok)) b
      (b\<lparr>bd_verdict := Some (Some ok), bd_marker := ok,
         bd_stamp := (if scheduled t then snd (sv_Record S (bd_stamp b) ok) else bd_stamp b)\<rparr>)"
| pass: "bd_pending b = t # ts \<Longrightarrow> bd_verdict b = None \<Longrightarrow>
    promise S (Recorded t None) b (b\<lparr>bd_verdict := Some None\<rparr>)"
| answer_judged: "bd_pending b = t # ts \<Longrightarrow> bd_verdict b = Some (Some (o_OK out)) \<Longrightarrow> o_Reason out = [] \<Longrightarrow>
    promise S (Answered t (Some out)) b (b\<lparr>bd_pending := ts, bd_verdict := None\<rparr>)"
| answer_passed: "bd_pending b = t # ts \<Longrightarrow> bd_verdict b = Some None \<Longrightarrow>
    bd_cancelled b \<or> o_OK out \<and> o_Reason out \<noteq> [] \<Longrightarrow>
    promise S (Answered t (Some out)) b (b\<lparr>bd_pending := ts, bd_verdict := None\<rparr>)"
| answer_refused: "bd_pending b = t # ts \<Longrightarrow> bd_verdict b = None \<Longrightarrow> bd_cancelled b \<Longrightarrow>
    promise S (Answered t None) b (b\<lparr>bd_pending := ts\<rparr>)"
| cancelling: "\<not> bd_cancelled b \<Longrightarrow> promise S Cancelled b (b\<lparr>bd_cancelled := True\<rparr>)"
| draining: "bd_cancelled b \<Longrightarrow> \<not> bd_draining b \<Longrightarrow>
    promise S DrainBegun b (b\<lparr>bd_draining := True, bd_marker := False\<rparr>)"
| closing: "bd_draining b \<Longrightarrow> bd_open b \<Longrightarrow> promise S Closed b (b\<lparr>bd_open := False\<rparr>)"
| finishing: "bd_draining b \<Longrightarrow> \<not> bd_open b \<Longrightarrow> bd_pending b = [] \<Longrightarrow> \<not> bd_stopped b \<Longrightarrow>
    promise S Finished b (b\<lparr>bd_stopped := True\<rparr>)"

text \<open>The board of a state of the daemon.\<close>

definition board_of :: "('h, 's) svc \<Rightarrow> ('t, 'h, 's, 'd) lc \<Rightarrow> 's board" where
  "board_of S s =
     \<lparr>bd_pending = in_service (lc_exec s) @ lc_queue s,
      bd_verdict = (case lc_exec s of ExRecorded _ _ ce r err \<Rightarrow> Some (verdict ce r err) | _ \<Rightarrow> None),
      bd_marker = sv_healthy S (ds_health (lc_d s)), bd_stamp = ds_stamp (lc_d s),
      bd_cancelled = cancelled s, bd_draining = (lc_pc s = Draining \<or> lc_pc s = Stopped),
      bd_open = lc_open s, bd_stopped = (lc_pc s = Stopped)\<rparr>"

text \<open>Requests accepted and answered in a run.\<close>

definition accepted_in :: "obs list \<Rightarrow> bytes list" where
  "accepted_in os = concat (map (\<lambda>ob. case ob of Accepted t \<Rightarrow> [t] | _ \<Rightarrow> []) os)"

definition answered_in :: "obs list \<Rightarrow> bytes list" where
  "answered_in os = concat (map (\<lambda>ob. case ob of Answered t _ \<Rightarrow> [t] | _ \<Rightarrow> []) os)"

lemma promise_accounts:
  "spec_run (promise S) b0 os b \<Longrightarrow> bd_pending b0 @ accepted_in os = answered_in os @ bd_pending b"
proof (induction rule: spec_run.induct)
  case (spec_seen os b ob b')
  from spec_seen.hyps(2) spec_seen.IH show ?case
    by cases (simp_all add: accepted_in_def answered_in_def flip: append_assoc)
qed (simp add: accepted_in_def answered_in_def)

text \<open>The marker is what was last recorded, and off from the drain on.\<close>

definition last_recorded :: "bool \<Rightarrow> obs list \<Rightarrow> bool" where
  "last_recorded m os = foldl (\<lambda>m ob. case ob of Recorded _ (Some ok) \<Rightarrow> ok | DrainBegun \<Rightarrow> False | _ \<Rightarrow> m) m os"

lemma promise_marker: "spec_run (promise S) b0 os b \<Longrightarrow> bd_marker b = last_recorded (bd_marker b0) os"
proof (induction rule: spec_run.induct)
  case (spec_seen os b ob b')
  from spec_seen.hyps(2) spec_seen.IH show ?case by cases (simp_all add: last_recorded_def)
qed (simp add: last_recorded_def)

subsection \<open>The daemon keeps the specification\<close>

lemma verdict_judged: "verdict ce r err = Some ok \<Longrightarrow> ce = None \<and> ok = (err = None) \<and> (r \<or> err \<noteq> None)"
  by (auto simp: verdict_def jobHealthSignal_def markerAction_def split: if_splits)

lemma verdict_passed: "verdict ce r err = None \<Longrightarrow> ce \<noteq> None \<or> \<not> r \<and> err = None"
  by (auto simp: verdict_def jobHealthSignal_def markerAction_def split: if_splits)

lemma record_by_verdict:
  "ds_health (recordOutcome S t ce r err d)
     = (case verdict ce r err of Some ok \<Rightarrow> sv_Set S (ds_health d) ok | None \<Rightarrow> ds_health d)"
  "ds_stamp (recordOutcome S t ce r err d)
     = (case verdict ce r err of
          Some ok \<Rightarrow> if scheduled t then snd (sv_Record S (ds_stamp d) ok) else ds_stamp d
        | None \<Rightarrow> ds_stamp d)"
  by (auto simp: recordOutcome_health recordOutcome_stamp verdict_def scheduled_def split: prod.splits)

definition phase_ok :: "('h \<Rightarrow> bool) \<Rightarrow> ('t, 'h, 's, 'd) lc \<Rightarrow> bool" where
  "phase_ok draining s \<longleftrightarrow>
     (lc_pc s \<in> {Noticed, Draining, Stopped} \<longrightarrow> cancelled s) \<and>
     (lc_pc s \<in> {Starting, Serving, Noticed} \<longrightarrow> lc_open s \<and> \<not> draining (ds_health (lc_d s))) \<and>
     (\<forall>t t0 ce r err. lc_exec s = ExRecorded t t0 ce r err \<longrightarrow> ce \<noteq> None \<longrightarrow> cancelled s)"

lemma ctx_Err_cancelled: "ctx_Err (lc_ctx s) t \<noteq> None \<Longrightarrow> cancelled s"
  by (auto simp: ctx_Err_def cancelled_def split: option.splits)

lemma ctx_Err_alive: "clock_ok s \<Longrightarrow> ctx_Err (lc_ctx s) (lc_now s) = None \<Longrightarrow> \<not> cancelled s"
  by (auto simp: ctx_Err_def cancelled_def clock_ok_def split: option.splits if_splits)

lemma cancelled_frame [simp]:
  "cancelled (happen S cfg e s) = cancelled s" "cancelled (s\<lparr>lc_pc := p\<rparr>) = cancelled s"
  "cancelled (s\<lparr>lc_d := d\<rparr>) = cancelled s" "cancelled (s\<lparr>lc_open := op\<rparr>) = cancelled s"
  "cancelled (s\<lparr>lc_queue := qu\<rparr>) = cancelled s" "cancelled (s\<lparr>lc_exec := x\<rparr>) = cancelled s"
  "cancelled (s\<lparr>lc_tick := k\<rparr>) = cancelled s" "cancelled (s\<lparr>lc_sent := ts\<rparr>) = cancelled s"
  "cancelled (s\<lparr>lc_now := n\<rparr>) = cancelled s"
  "cancelled (s\<lparr>lc_ctx := (lc_ctx s)\<lparr>c_done := Some te\<rparr>\<rparr>)"
  by (simp_all add: cancelled_def)

lemma phase_step:
  assumes "lstep S ctx cfg uid ext due l s s'" "phase_ok draining s" "latch_contract S draining"
  shows "phase_ok draining s'"
  using assms(1)
proof cases
  case (judged t t0 did_run err ce)
  then show ?thesis
    using assms(2) dev_step_marker [OF assms(3), of cfg "lc_d s" "OutcomeRecorded t ce did_run err"]
      ctx_Err_cancelled [of s "lc_now s"] by (simp add: phase_ok_def)
next
  case (job_ended q t0 did_run err)
  then show ?thesis using assms(2) by (simp add: phase_ok_def)
next
  case (tick_refused t e)
  then show ?thesis using assms(2) by (simp add: phase_ok_def)
next
  case queued
  then show ?thesis using assms(2) by (simp add: phase_ok_def)
qed (use assms(2) in \<open>auto simp: phase_ok_def\<close>)

definition keeps_promise ::
  "('h, 's) svc \<Rightarrow> ('h \<Rightarrow> bool) \<Rightarrow> bytes \<Rightarrow> config \<Rightarrow> bool \<Rightarrow> ('t, 'h, 's, 'd) lc \<Rightarrow> bool" where
  "keeps_promise S draining ext cfg due s \<longleftrightarrow>
     latch_contract S draining \<and> \<not> scheduled ext \<and>
     requests_ok s \<and> ticks_ok cfg due s \<and> clock_ok s \<and> phase_ok draining s"

lemma keeps_promise_step:
  "lstep S ctx cfg uid ext due l s s' \<Longrightarrow> keeps_promise S draining ext cfg due s \<Longrightarrow> keeps_promise S draining ext cfg due s'"
  unfolding keeps_promise_def using requests_step ticks_step clock_step phase_step by metis

lemma silent_step:
  assumes "lstep S ctx cfg uid ext due None s s'"
  shows "board_of S s' = board_of S s"
  using assms
  by cases (auto simp: board_of_def)

lemma pending_bound:
  "int (length (lc_queue s)) < queueCapacity \<Longrightarrow> int (length (in_service (lc_exec s) @ lc_queue s)) \<le> queueCapacity"
  by (simp add: in_service_def split: executor.split)

lemma none_scheduled: "filter_mset scheduled (outstanding s) = {#} \<Longrightarrow> \<not> list_ex scheduled (in_service (lc_exec s) @ lc_queue s)"
  by (auto simp: outstanding_def filter_mset_eq_conv list_ex_iff)

lemma judged_step:
  assumes "lc_exec s = ExJudging t t0 did_run err" "ce = ctx_Err (lc_ctx s) (lc_now s)"
    and "keeps_promise S draining ext cfg due s"
    and "s' = (happen S cfg (OutcomeRecorded t ce did_run err) s)\<lparr>lc_exec := ExRecorded t t0 ce did_run err\<rparr>"
  shows "promise S (Recorded t (verdict ce did_run err)) (board_of S s) (board_of S s')"
proof -
  note inv = assms(3) [unfolded keeps_promise_def]
  have b: "bd_pending (board_of S s) = t # lc_queue s" "bd_verdict (board_of S s) = None"
    by (simp_all add: board_of_def assms(1))
  show ?thesis
  proof (cases "verdict ce did_run err")
    case None
    then have "board_of S s' = (board_of S s)\<lparr>bd_verdict := Some None\<rparr>"
      by (simp add: board_of_def assms(1,4) record_by_verdict)
    then show ?thesis using pass [where S = S, OF b] None by simp
  next
    case (Some ok)
    then have alive: "\<not> cancelled s"
      using ctx_Err_alive [of s] verdict_judged [OF Some] inv assms(2) by simp
    then have "\<not> draining (ds_health (lc_d s))" using inv by (cases "lc_pc s") (auto simp: phase_ok_def)
    then have "sv_healthy S (sv_Set S (ds_health (lc_d s)) ok) = ok"
      using inv by (simp add: latch_contract_def)
    then have "board_of S s' = (board_of S s)\<lparr>bd_verdict := Some (Some ok), bd_marker := ok,
        bd_stamp := (if scheduled t then snd (sv_Record S (bd_stamp (board_of S s)) ok) else bd_stamp (board_of S s))\<rparr>"
      by (simp add: board_of_def assms(1,4) record_by_verdict Some)
    moreover have "\<not> bd_cancelled (board_of S s)" using alive by (simp add: board_of_def)
    ultimately show ?thesis using judge [where S = S, OF b] Some by simp
  qed
qed

lemma answer_step:
  assumes "lc_exec s = ExRecorded t t0 ce did_run err" "keeps_promise S draining ext cfg due s"
    and "s' = s\<lparr>lc_exec := ExIdle, lc_tick := answered t (lc_tick s)\<rparr>" "out = run_outcome did_run err dur"
  shows "promise S (Answered t (Some out)) (board_of S s) (board_of S s')"
proof -
  have b: "bd_pending (board_of S s) = t # lc_queue s" "bd_verdict (board_of S s) = Some (verdict ce did_run err)"
    "board_of S s' = (board_of S s)\<lparr>bd_pending := lc_queue s, bd_verdict := None\<rparr>"
    by (simp_all add: board_of_def assms(1,3))
  show ?thesis
  proof (cases "verdict ce did_run err")
    case None
    then have "ce \<noteq> None \<or> o_OK out \<and> o_Reason out \<noteq> []"
      using verdict_passed [OF None] by (auto simp: assms(4) run_outcome_def)
    then have "bd_cancelled (board_of S s) \<or> o_OK out \<and> o_Reason out \<noteq> []"
      using assms(1,2) by (auto simp: keeps_promise_def phase_ok_def board_of_def)
    then show ?thesis using answer_passed [where S = S, OF b(1)] b(2,3) None by simp
  next
    case (Some ok)
    then have "ok = o_OK out" "o_Reason out = []"
      using verdict_judged [OF Some] by (auto simp: assms(4) run_outcome_def)
    then show ?thesis using answer_judged [where S = S, OF b(1)] b(2,3) Some by simp
  qed
qed

lemma seen_step:
  assumes "lstep S ctx cfg uid ext due (Some ob) s s'" "keeps_promise S draining ext cfg due s"
  shows "promise S ob (board_of S s) (board_of S s')"
proof -
  note inv = assms(2) [unfolded keeps_promise_def]
  show ?thesis
    using assms(1)
  proof cases
    case cancel
    then have "board_of S s' = (board_of S s)\<lparr>bd_cancelled := True\<rparr>" by (simp add: board_of_def)
    then show ?thesis using cancel cancelling [of "board_of S s" S] by (simp add: board_of_def)
  next
    case drain
    then have "board_of S s' = (board_of S s)\<lparr>bd_draining := True, bd_marker := False\<rparr>"
      using inv by (simp add: board_of_def begin_drain_def latch_contract_def)
    then show ?thesis using drain inv draining [of "board_of S s" S] by (simp add: board_of_def phase_ok_def)
  next
    case close_queue
    then have "board_of S s' = (board_of S s)\<lparr>bd_open := False\<rparr>" by (simp add: board_of_def)
    then show ?thesis using close_queue closing [of "board_of S s" S] by (simp add: board_of_def)
  next
    case join
    then have "board_of S s' = (board_of S s)\<lparr>bd_stopped := True\<rparr>" by (simp add: board_of_def)
    then show ?thesis using join finishing [of "board_of S s" S] by (simp add: board_of_def)
  next
    case request
    then have "board_of S s' = (board_of S s)\<lparr>bd_pending := bd_pending (board_of S s) @ [ext]\<rparr>"
      by (simp add: board_of_def)
    then show ?thesis
      using request inv pending_bound [of s] accept [of "board_of S s" ext S] by (simp add: board_of_def)
  next
    case (tick_sent t)
    then have "board_of S s' = (board_of S s)\<lparr>bd_pending := bd_pending (board_of S s) @ [t]\<rparr>"
      by (simp add: board_of_def)
    moreover have "filter_mset scheduled (outstanding s) = {#}"
      using inv tick_sent by (simp add: requests_ok_def ticks_wait_def)
    ultimately show ?thesis
      using tick_sent pending_bound [of s] none_scheduled [of s] accept [of "board_of S s" t S]
      by (simp add: board_of_def)
  next
    case (judged t t0 did_run err ce)
    then show ?thesis using judged_step [OF judged(3,4) assms(2)] by simp
  next
    case (answer t t0 ce did_run err)
    then show ?thesis using answer_step [OF answer(3) assms(2)] by simp
  next
    case (refuse t ts)
    then have "board_of S s' = (board_of S s)\<lparr>bd_pending := ts\<rparr>" by (simp add: board_of_def)
    then show ?thesis using refuse answer_refused [of "board_of S s" t ts S] by (simp add: board_of_def)
  qed
qed

interpretation daemon_sim: simulation "lstep S ctx cfg uid ext due" "promise S" "board_of S"
    "keeps_promise S draining ext cfg due" for S ctx cfg uid ext due draining
  by unfold_locales (rule keeps_promise_step silent_step seen_step; assumption)+

lemma boot_health:
  "latch_contract S draining \<Longrightarrow> draining (ds_health (snd (daemon_boot S cfg now d))) = draining (ds_health d)"
  by (auto simp: daemon_boot_def latch_contract_def Let_def split: prod.split)

lemma boot_promise:
  assumes "latch_contract S draining" "\<not> draining (ds_health d)" "\<not> scheduled ext"
  shows "keeps_promise S draining ext cfg (fst (daemon_boot S cfg now d)) (lc_boot S ctx cfg now d)"
proof -
  have "phase_ok draining (lc_boot S ctx cfg now d)"
    using boot_health [OF assms(1), of cfg now d] assms(2)
    by (auto simp: phase_ok_def lc_boot_def split: prod.splits)
  then show ?thesis
    using assms by (simp add: keeps_promise_def boot_requests boot_clock)
qed

text \<open>The board a daemon starts with.\<close>

definition first_board :: "bool \<Rightarrow> 's \<Rightarrow> 's board" where
  "first_board healthy stamp =
     \<lparr>bd_pending = [], bd_verdict = None, bd_marker = healthy, bd_stamp = stamp, bd_cancelled = False,
      bd_draining = False, bd_open = True, bd_stopped = False\<rparr>"

lemma boot_board:
  "board_of S (lc_boot S ctx cfg now d)
     = first_board (sv_healthy S (ds_health (snd (daemon_boot S cfg now d)))) (ds_stamp d)"
  using boot_stamp [of S cfg now d]
  by (cases "daemon_boot S cfg now d") (simp add: board_of_def first_board_def lc_boot_def cancelled_def)

text \<open>
  C19. The daemon keeps its promise: whatever order the main flow, the executor, the ticker and the server
  take turns in, and however far a run is, everything that is observed of it is a run of the
  specification \<open>promise\<close> from the boot marker and the stamp of the volume, and it ends in the board of the
  state. Hence the requests accepted are those answered and those still pending, in one order: nothing is
  answered twice, out of turn or never asked for, and a daemon that has stopped owes no answer. The
  marker is what was recorded last, and off from the drain on.
\<close>

theorem lifecycle_refines:
  assumes "lrun S ctx cfg uid ext now d os s" "latch_contract S draining" "\<not> draining (ds_health d)"
    and "ext \<noteq> triggerStartup" "ext \<noteq> triggerInterval"
  shows "(let healthy = sv_healthy S (ds_health (snd (daemon_boot S cfg now d))) in
      spec_run (promise S) (first_board healthy (ds_stamp d)) os (board_of S s) \<and>
      accepted_in os = answered_in os @ in_service (lc_exec s) @ lc_queue s \<and>
      (lc_pc s = Stopped \<longrightarrow> accepted_in os = answered_in os) \<and>
      sv_healthy S (ds_health (lc_d s)) = last_recorded healthy os)"
proof -
  have e: "\<not> scheduled ext" using assms(4,5) by (simp add: scheduled_def)
  define b0 where "b0 = first_board (sv_healthy S (ds_health (snd (daemon_boot S cfg now d)))) (ds_stamp d)"
  have r: "spec_run (promise S) b0 os (board_of S s)" "keeps_promise S draining ext cfg (fst (daemon_boot S cfg now d)) s"
    using daemon_sim.run_refines [OF assms(1) [unfolded lrun_def] boot_promise [OF assms(2,3) e]]
    by (simp_all add: boot_board b0_def)
  have "lc_pc s = Stopped \<longrightarrow> in_service (lc_exec s) @ lc_queue s = []"
    using r(2) by (auto simp: keeps_promise_def requests_ok_def outstanding_def)
  then show ?thesis
    using r(1) promise_accounts [OF r(1)] promise_marker [OF r(1)]
    unfolding Let_def b0_def [symmetric] by (simp add: board_of_def b0_def first_board_def)
qed

subsection \<open>A concrete daemon\<close>

lemma demo_boot:
  "lreach demo_svc live_ctx demo_cfg 1000 ''external'' 0 demo_state (lc_boot demo_svc live_ctx demo_cfg 0 demo_state)"
  by (rule lreach_boot)

lemma demo_labels: "''external'' \<noteq> triggerStartup" "''external'' \<noteq> triggerInterval" "\<not> scheduled ''external''"
  by (simp_all add: triggerStartup_def triggerInterval_def scheduled_def)

lemma demo_end:
  "\<exists>s. lreach demo_svc live_ctx demo_cfg 1000 ''external'' 0 demo_state s \<and> lc_pc s = Stopped"
  using reach_stopped [OF demo_boot demo_labels(3)] by blast

lemma lrun_seen:
  assumes "lrun S ctx cfg uid ext now d os s" "lstep S ctx cfg uid ext (fst (daemon_boot S cfg now d)) (Some ob) s s'"
  shows "lrun S ctx cfg uid ext now d (os @ [ob]) s'"
  unfolding lrun_def by (rule run_seen [OF assms(1) [unfolded lrun_def] assms(2)])

lemma demo_accepts:
  "\<exists>os (s :: (bytes list, bool \<times> bool, RunRecord, doc) lc).
     lrun demo_svc live_ctx demo_cfg 1000 ''external'' 0 demo_state os s \<and> accepted_in os = [''external'', ''external'']"
proof -
  let ?due = "fst (daemon_boot demo_svc demo_cfg 0 demo_state)"
  let ?s0 = "lc_boot demo_svc live_ctx demo_cfg 0 demo_state :: (bytes list, bool \<times> bool, RunRecord, doc) lc"
  let ?s1 = "?s0\<lparr>lc_queue := lc_queue ?s0 @ [''external'']\<rparr>"
  have b: "lc_open ?s0" "lc_queue ?s0 = []" by (simp_all add: lc_boot_def split: prod.split)
  have 1: "lstep demo_svc live_ctx demo_cfg 1000 ''external'' ?due (Some (Accepted ''external'')) ?s0 ?s1"
    using b by (intro request) (simp_all add: queueCapacity_def)
  have 2: "lstep demo_svc live_ctx demo_cfg 1000 ''external'' ?due (Some (Accepted ''external'')) ?s1
      (?s1\<lparr>lc_queue := lc_queue ?s1 @ [''external'']\<rparr>)"
    using b by (intro request) (simp_all add: queueCapacity_def)
  have "lrun demo_svc live_ctx demo_cfg 1000 ''external'' 0 demo_state (([] @ [Accepted ''external'']) @ [Accepted ''external''])
      (?s1\<lparr>lc_queue := lc_queue ?s1 @ [''external'']\<rparr>)"
    by (rule lrun_seen [OF _ 2], rule lrun_seen [OF _ 1]) (simp add: lrun_def run_start)
  moreover have "accepted_in (([] @ [Accepted ''external'']) @ [Accepted ''external'']) = [''external'', ''external'']"
    by (simp add: accepted_in_def)
  ultimately show ?thesis by blast
qed

text \<open>A run to the end that answers both.\<close>

lemma machine_run_on:
  "(lmove S ctx cfg uid ext (fst (daemon_boot S cfg now d)))\<^sup>*\<^sup>* s s' \<Longrightarrow> lrun S ctx cfg uid ext now d os s \<Longrightarrow>
     \<exists>os'. lrun S ctx cfg uid ext now d (os @ os') s'"
proof (induction rule: rtranclp_induct)
  case base
  then show ?case by (metis append_Nil2)
next
  case (step s1 s2)
  from step.IH step.prems step.hyps obtain os' l where r: "lrun S ctx cfg uid ext now d (os @ os') s1"
    "lstep S ctx cfg uid ext (fst (daemon_boot S cfg now d)) l s1 s2" by (auto simp: lmove_def)
  show ?case
  proof (cases l)
    case None
    have "lrun S ctx cfg uid ext now d (os @ os') s2"
      unfolding lrun_def by (rule run_silent [OF r(1) [unfolded lrun_def] r(2) [unfolded None]])
    then show ?thesis by blast
  next
    case (Some ob)
    have "lrun S ctx cfg uid ext now d ((os @ os') @ [ob]) s2"
      by (rule lrun_seen [OF r(1) r(2) [unfolded Some]])
    then show ?thesis unfolding append_assoc by blast
  qed
qed

theorem lifecycle_refines_witness:
  "\<exists>os (s :: (bytes list, bool \<times> bool, RunRecord, doc) lc).
     lrun demo_svc live_ctx demo_cfg 1000 ''external'' 0 demo_state os s \<and> lc_pc s = Stopped \<and>
     accepted_in os = answered_in os \<and> ''external'' \<in> set (answered_in os) \<and>
     sv_healthy demo_svc (ds_health (lc_d s))
       = last_recorded (sv_healthy demo_svc (ds_health (snd (daemon_boot demo_svc demo_cfg 0 demo_state)))) os"
proof -
  obtain os and s :: "(bytes list, bool \<times> bool, RunRecord, doc) lc" where os: "lrun demo_svc live_ctx demo_cfg 1000 ''external'' 0 demo_state os s"
    "accepted_in os = [''external'', ''external'']" using demo_accepts by blast
  then have "lreach demo_svc live_ctx demo_cfg 1000 ''external'' 0 demo_state s" by (auto simp: lreach_def)
  then obtain s' where "(lmove demo_svc live_ctx demo_cfg 1000 ''external'' (fst (daemon_boot demo_svc demo_cfg 0 demo_state)))\<^sup>*\<^sup>* s s'"
    and stop: "lc_pc s' = Stopped" using reach_stopped [OF _ demo_labels(3)] by blast
  then obtain os' where run: "lrun demo_svc live_ctx demo_cfg 1000 ''external'' 0 demo_state (os @ os') s'"
    using machine_run_on [OF _ os(1)] by blast
  have "\<not> fst (ds_health demo_state)" by (simp add: demo_state_def)
  from lifecycle_refines [OF run demo_contract this demo_labels(1,2)] stop
  have same: "accepted_in (os @ os') = answered_in (os @ os')"
    "sv_healthy demo_svc (ds_health (lc_d s'))
       = last_recorded (sv_healthy demo_svc (ds_health (snd (daemon_boot demo_svc demo_cfg 0 demo_state)))) (os @ os')"
    unfolding Let_def by blast+
  have "''external'' \<in> set (accepted_in (os @ os'))" using os(2) by (simp add: accepted_in_def)
  then show ?thesis using run stop same by (intro exI [of _ "os @ os'"] exI [of _ s']) simp
qed

theorem lifecycle_invariant_witness:
  "\<exists>s :: (bytes list, bool \<times> bool, RunRecord, doc) lc. lc_pc s = Stopped \<and> outstanding s = {#} \<and> \<not> sv_healthy demo_svc (ds_health (lc_d s))"
proof -
  obtain s :: "(bytes list, bool \<times> bool, RunRecord, doc) lc" where s: "lreach demo_svc live_ctx demo_cfg 1000 ''external'' 0 demo_state s" "lc_pc s = Stopped"
    using demo_end by blast
  have "\<not> w_locked (ds_world demo_state)" by (simp add: demo_state_def demo_world_def)
  from lifecycle_invariant [OF s(1) this demo_labels(1,2) demo_contract] s(2) show ?thesis by blast
qed

theorem external_never_stamps_witness:
  "\<exists>s :: (bytes list, bool \<times> bool, RunRecord, doc) lc. lc_pc s = Stopped \<and> ds_stamp (lc_d s) = \<lparr>rr_Time = 0, rr_OK = True\<rparr>"
proof -
  obtain s :: "(bytes list, bool \<times> bool, RunRecord, doc) lc" where s: "lreach demo_svc live_ctx demo_cfg 1000 ''external'' 0 demo_state s" "lc_pc s = Stopped"
    using demo_end by blast
  have "Mode demo_cfg \<noteq> modeBuiltin" by (simp add: demo_cfg_def)
  from external_never_stamps [OF s(1) this demo_labels(1,2)] s(2) show ?thesis by (auto simp: demo_state_def)
qed

theorem lifecycle_can_stop_witness:
  "\<exists>s' :: (bytes list, bool \<times> bool, RunRecord, doc) lc.
     (lmove demo_svc live_ctx demo_cfg 1000 ''external'' (fst (daemon_boot demo_svc demo_cfg 0 demo_state)))\<^sup>*\<^sup>*
      (lc_boot demo_svc live_ctx demo_cfg 0 demo_state) s' \<and> lc_pc s' = Stopped"
  using lifecycle_can_stop [OF demo_boot demo_labels(1,2)] by blast

end
