(* ===== verification/Sharing.thy ===== *)
theory Sharing
  imports Scheduler
begin

text \<open>
  The directory \<open>/cache\<close> as several processes share it: daemons of other containers, one-shot
  containers, a manual \<open>docker run\<close>. A process is away, or in one of the two sections of
  \<open>scheduler.go\<close> that hold the scan lock; one transition of \<open>job_step\<close> (the section of \<open>runFclonesJob\<close>)
  and of \<open>sweep_step\<close> (that of \<open>cleanStaleReports\<close>) is one call on the lock or on the directory. In \<open>cstep\<close>
  the sections of different processes interleave, and a process can be killed between any two calls.

  Of the operating system only this is used. The lock is exclusive, and the kernel gives it up when its
  holder dies. \<open>os.CreateTemp\<close> creates a file that did not exist, named by the pattern. A listing has
  each name once. Programs other than this one leave names of the report pattern alone, fclones too, except
  for the report it was given, to which it may go on writing when it outlives its killed wrapper.
\<close>

subsection \<open>States\<close>

text \<open>
  Where a process is in the locked sections: before \<open>os.CreateTemp\<close>; from there to the deferred
  \<open>os.Remove\<close>; before \<open>filepath.Glob\<close>; in the loop of the sweep, with the matches still to come and
  those whose removal failed; before the deferred \<open>Unlock\<close>.
\<close>

datatype stage =
    Away
  | Entered
  | Reporting bytes
  | Globbing
  | Sweeping "bytes list" "bytes set"
  | Leaving

text \<open>
  The last field is history: the orphans, reports on the volume that no process works on any more,
  because the process was killed or the removal failed.
\<close>

record 'p shared =
  sh_files :: "bytes \<Rightarrow> bytes option"
  sh_lock :: "'p option"
  sh_at :: "'p \<Rightarrow> stage"
  sh_orphans :: "bytes set"

definition goto :: "'p \<Rightarrow> stage \<Rightarrow> 'p shared \<Rightarrow> 'p shared" where
  "goto p st s = s\<lparr>sh_at := (sh_at s)(p := st)\<rparr>"

definition set_file :: "bytes \<Rightarrow> bytes option \<Rightarrow> 'p shared \<Rightarrow> 'p shared" where
  "set_file m c s = s\<lparr>sh_files := (sh_files s)(m := c)\<rparr>"

definition orphan :: "bytes set \<Rightarrow> 'p shared \<Rightarrow> 'p shared" where
  "orphan M s = s\<lparr>sh_orphans := sh_orphans s \<union> M\<rparr>"

definition unlink :: "bytes \<Rightarrow> 'p shared \<Rightarrow> 'p shared" where
  "unlink m s = s\<lparr>sh_files := (sh_files s)(m := None), sh_orphans := sh_orphans s - {m}\<rparr>"

definition reports :: "'p shared \<Rightarrow> bytes set" where
  "reports s = {m. sh_files s m \<noteq> None \<and> matches_temp cacheDir m}"

definition reporting :: "stage \<Rightarrow> bytes set" where
  "reporting st = (case st of Reporting m \<Rightarrow> {m} | _ \<Rightarrow> {})"

text \<open>At first nobody uses the volume; the reports on it, if any, are orphans of its past.\<close>

definition sh_init :: "(bytes \<Rightarrow> bytes option) \<Rightarrow> 'p shared" where
  "sh_init files = \<lparr>sh_files = files, sh_lock = None, sh_at = (\<lambda>_. Away),
     sh_orphans = {m. files m \<noteq> None \<and> matches_temp cacheDir m}\<rparr>"

lemma shared_frame [simp]:
  "sh_files (goto p st s) = sh_files s" "sh_lock (goto p st s) = sh_lock s" "sh_orphans (goto p st s) = sh_orphans s"
  "sh_at (goto p st s) = (sh_at s)(p := st)"
  "sh_files (set_file m c s) = (sh_files s)(m := c)" "sh_lock (set_file m c s) = sh_lock s"
  "sh_orphans (set_file m c s) = sh_orphans s" "sh_at (set_file m c s) = sh_at s"
  "sh_files (orphan M s) = sh_files s" "sh_lock (orphan M s) = sh_lock s" "sh_at (orphan M s) = sh_at s"
  "sh_orphans (orphan M s) = sh_orphans s \<union> M"
  "sh_files (unlink m s) = (sh_files s)(m := None)" "sh_lock (unlink m s) = sh_lock s" "sh_at (unlink m s) = sh_at s"
  "sh_orphans (unlink m s) = sh_orphans s - {m}"
  by (simp_all add: goto_def set_file_def orphan_def unlink_def)

subsection \<open>Transitions\<close>

text \<open>Who moves: a process, the kernel that kills one, or another program.\<close>

datatype 'p mover = Proc 'p | Kill 'p | Other

text \<open>
  The section of a job. While the report exists fclones runs, as the scan and as the action: it writes to
  the report, and it may change files of other names.
\<close>

inductive job_step :: "'p \<Rightarrow> 'p shared \<Rightarrow> 'p shared \<Rightarrow> bool" for p where
  job_lock: "sh_at s p = Away \<Longrightarrow> sh_lock s = None \<Longrightarrow> job_step p s (goto p Entered (s\<lparr>sh_lock := Some p\<rparr>))"
| job_fails: "sh_at s p = Entered \<Longrightarrow> job_step p s (goto p Leaving s)"
| create: "sh_at s p = Entered \<Longrightarrow> sh_files s m = None \<Longrightarrow> matches_temp cacheDir m \<Longrightarrow>
    job_step p s (goto p (Reporting m) (set_file m (Some []) s))"
| written: "sh_at s p = Reporting m \<Longrightarrow> sh_files s m = Some c \<Longrightarrow> job_step p s (set_file m (Some (c @ out)) s)"
| fclones: "sh_at s p = Reporting m \<Longrightarrow> (\<And>n. matches_temp cacheDir n \<Longrightarrow> f n = sh_files s n) \<Longrightarrow>
    job_step p s (s\<lparr>sh_files := f\<rparr>)"
| remove: "sh_at s p = Reporting m \<Longrightarrow> job_step p s (goto p Leaving (unlink m s))"
| remove_fails: "sh_at s p = Reporting m \<Longrightarrow> job_step p s (goto p Leaving (orphan {m} s))"
| job_unlock: "sh_at s p = Leaving \<Longrightarrow> job_step p s (goto p Away (s\<lparr>sh_lock := None\<rparr>))"

text \<open>The section of a sweep.\<close>

inductive sweep_step :: "'p \<Rightarrow> 'p shared \<Rightarrow> 'p shared \<Rightarrow> bool" for p where
  sweep_lock: "sh_at s p = Away \<Longrightarrow> sh_lock s = None \<Longrightarrow> sweep_step p s (goto p Globbing (s\<lparr>sh_lock := Some p\<rparr>))"
| glob_fails: "sh_at s p = Globbing \<Longrightarrow> sweep_step p s (goto p Leaving s)"
| glob: "sh_at s p = Globbing \<Longrightarrow> set ms = reports s \<Longrightarrow> distinct ms \<Longrightarrow>
    sweep_step p s (goto p (Sweeping ms {}) s)"
| sweep: "sh_at s p = Sweeping (m # ms) failed \<Longrightarrow> sweep_step p s (goto p (Sweeping ms failed) (unlink m s))"
| sweep_fails: "sh_at s p = Sweeping (m # ms) failed \<Longrightarrow>
    sweep_step p s (goto p (Sweeping ms (insert m failed)) s)"
| sweep_ends: "sh_at s p = Sweeping [] failed \<Longrightarrow> sweep_step p s (goto p Leaving s)"
| sweep_unlock: "sh_at s p = Leaving \<Longrightarrow> sweep_step p s (goto p Away (s\<lparr>sh_lock := None\<rparr>))"

text \<open>All of them, the kernel and the other programs together.\<close>

inductive cstep :: "'p mover \<Rightarrow> 'p shared \<Rightarrow> 'p shared \<Rightarrow> bool" where
  job: "job_step p s s' \<Longrightarrow> cstep (Proc p) s s'"
| sweeping: "sweep_step p s s' \<Longrightarrow> cstep (Proc p) s s'"
| killed: "cstep (Kill p) s (goto p Away (orphan (reporting (sh_at s p))
    (s\<lparr>sh_lock := (if sh_lock s = Some p then None else sh_lock s)\<rparr>)))"
| late_write: "m \<in> sh_orphans s \<Longrightarrow> sh_files s m = Some c \<Longrightarrow>
    cstep Other s (set_file m (Some (c @ out)) s)"
| other: "\<not> matches_temp cacheDir m \<Longrightarrow> cstep Other s (set_file m c s)"

inductive_cases job_stepE: "job_step p s s'"
inductive_cases sweep_stepE: "sweep_step p s s'"

definition moves :: "'p shared \<Rightarrow> 'p shared \<Rightarrow> bool" where
  "moves s s' \<longleftrightarrow> (\<exists>a. cstep a s s')"

text \<open>The states that can be reached from a volume with the given files.\<close>

definition shreach :: "(bytes \<Rightarrow> bytes option) \<Rightarrow> 'p shared \<Rightarrow> bool" where
  "shreach files s \<longleftrightarrow> moves\<^sup>*\<^sup>* (sh_init files) s"

subsection \<open>The invariant\<close>

text \<open>
  Only the holder of the lock is in a locked section; the report it works on exists; a sweep has on its
  list or among its failures every report there is; and the reports on the volume are the orphans and
  the one the holder works on, which is not one of them.
\<close>

definition stage_ok :: "'p shared \<Rightarrow> stage \<Rightarrow> bool" where
  "stage_ok s st =
     (case st of
        Reporting m \<Rightarrow> m \<in> reports s \<and> m \<notin> sh_orphans s
      | Sweeping ms failed \<Rightarrow> distinct ms \<and> set ms \<inter> failed = {} \<and> reports s = set ms \<union> failed
      | _ \<Rightarrow> True)"

definition sharing_inv :: "'p shared \<Rightarrow> bool" where
  "sharing_inv s \<longleftrightarrow>
     (\<forall>p. sh_lock s = Some p \<longleftrightarrow> sh_at s p \<noteq> Away) \<and>
     (\<forall>p. stage_ok s (sh_at s p)) \<and>
     reports s = sh_orphans s \<union> (\<Union>p. reporting (sh_at s p))"

lemma reports_set [simp]:
  "reports (set_file m (Some c) s) = (if matches_temp cacheDir m then insert m (reports s) else reports s)"
  "reports (unlink m s) = reports s - {m}"
  "reports (goto p st s) = reports s" "reports (orphan M s) = reports s"
  "reports (s\<lparr>sh_lock := l\<rparr>) = reports s"
  by (auto simp: reports_def)

lemma reports_fclones:
  "(\<And>n. matches_temp cacheDir n \<Longrightarrow> f n = sh_files s n) \<Longrightarrow> reports (s\<lparr>sh_files := f\<rparr>) = reports s"
  by (auto simp: reports_def)

lemma reports_init: "reports (sh_init files) = sh_orphans (sh_init files)"
  by (simp add: reports_def sh_init_def)

text \<open>With the others away the invariant speaks of one process only.\<close>

definition alone :: "'p \<Rightarrow> 'p shared \<Rightarrow> bool" where
  "alone p s \<longleftrightarrow> (\<forall>q. q \<noteq> p \<longrightarrow> sh_at s q = Away)"

definition local_inv :: "'p shared \<Rightarrow> 'p option \<Rightarrow> 'p \<Rightarrow> stage \<Rightarrow> bool" where
  "local_inv s lock p st \<longleftrightarrow>
     lock = (if st = Away then None else Some p) \<and> stage_ok s st \<and> reports s = sh_orphans s \<union> reporting st"

lemma alone_reporting: "alone p s \<Longrightarrow> (\<Union>q. reporting (sh_at s q)) = reporting (sh_at s p)"
proof -
  assume a: "alone p s"
  have "reporting (sh_at s q) \<subseteq> reporting (sh_at s p)" for q
    using a by (cases "q = p") (simp_all add: alone_def reporting_def)
  then show ?thesis by blast
qed

lemma alone_lock:
  "alone p s \<Longrightarrow> (\<forall>q. l = Some q \<longleftrightarrow> sh_at s q \<noteq> Away) \<longleftrightarrow> l = (if sh_at s p = Away then None else Some p)"
  by (cases l) (auto simp: alone_def)

lemma alone_stage: "alone p s \<Longrightarrow> (\<forall>q. stage_ok s (sh_at s q)) \<longleftrightarrow> stage_ok s (sh_at s p)"
proof -
  assume a: "alone p s"
  have "stage_ok s (sh_at s q)" if "q \<noteq> p" for q using a that by (simp add: alone_def stage_ok_def)
  then show ?thesis by metis
qed

lemma sharing_inv_alone: "alone p s \<Longrightarrow> sharing_inv s \<longleftrightarrow> local_inv s (sh_lock s) p (sh_at s p)"
  by (simp add: sharing_inv_def local_inv_def alone_reporting alone_lock alone_stage)

lemma holder_alone: "sharing_inv s \<Longrightarrow> sh_at s p \<noteq> Away \<or> sh_lock s = None \<Longrightarrow> alone p s"
  unfolding sharing_inv_def alone_def by (metis option.inject option.distinct(1))

subsection \<open>Its preservation\<close>

text \<open>A process moves only itself; unless it is killed while it is away, it is alone.\<close>

definition concerns :: "'p mover \<Rightarrow> 'p \<Rightarrow> bool" where
  "concerns a p \<longleftrightarrow> a = Proc p \<or> a = Kill p"

lemma section_frame:
  "job_step p s s' \<Longrightarrow> q \<noteq> p \<Longrightarrow> sh_at s' q = sh_at s q"
  "sweep_step p s s' \<Longrightarrow> q \<noteq> p \<Longrightarrow> sh_at s' q = sh_at s q"
  by (auto elim!: job_stepE sweep_stepE)

lemma step_frame: "cstep a s s' \<Longrightarrow> concerns a p \<Longrightarrow> q \<noteq> p \<Longrightarrow> sh_at s' q = sh_at s q"
  by (cases rule: cstep.cases) (auto simp: concerns_def section_frame)

lemma section_entry:
  "job_step p s s' \<Longrightarrow> sh_at s p \<noteq> Away \<or> sh_lock s = None"
  "sweep_step p s s' \<Longrightarrow> sh_at s p \<noteq> Away \<or> sh_lock s = None"
  by (auto elim!: job_stepE sweep_stepE)

lemma killed_away:
  "sharing_inv s \<Longrightarrow> sh_at s p = Away \<Longrightarrow>
     goto p Away (orphan (reporting (sh_at s p)) (s\<lparr>sh_lock := (if sh_lock s = Some p then None else sh_lock s)\<rparr>)) = s"
  by (simp add: sharing_inv_def goto_def orphan_def reporting_def fun_upd_idem)

lemma mover_alone:
  assumes "cstep a s s'" "concerns a p" "sharing_inv s"
  shows "s' = s \<or> alone p s \<and> alone p s'"
proof -
  have "s' = s \<or> sh_at s p \<noteq> Away \<or> sh_lock s = None"
    using assms(1,2) killed_away [OF assms(3)] section_entry [of p s s']
    by (cases rule: cstep.cases) (auto simp: concerns_def)
  then show ?thesis
    using holder_alone [OF assms(3)] step_frame [OF assms(1,2)] by (auto simp: alone_def)
qed

lemma stage_ok_simps [simp]:
  "stage_ok s Away" "stage_ok s Entered" "stage_ok s Globbing" "stage_ok s Leaving"
  "stage_ok s (Reporting m) \<longleftrightarrow> m \<in> reports s \<and> m \<notin> sh_orphans s"
  "stage_ok s (Sweeping ms failed) \<longleftrightarrow> distinct ms \<and> set ms \<inter> failed = {} \<and> reports s = set ms \<union> failed"
  by (simp_all add: stage_ok_def)

lemma reporting_simps [simp]:
  "reporting Away = {}" "reporting Entered = {}" "reporting Globbing = {}" "reporting Leaving = {}"
  "reporting (Reporting m) = {m}" "reporting (Sweeping ms failed) = {}"
  by (simp_all add: reporting_def)

lemma job_step_inv:
  assumes "job_step p s s'" "local_inv s (sh_lock s) p (sh_at s p)"
  shows "local_inv s' (sh_lock s') p (sh_at s' p)"
  using assms(1)
proof (cases rule: job_step.cases)
  case (create m)
  then have "m \<notin> reports s" by (simp add: reports_def)
  with create assms(2) show ?thesis by (auto simp: local_inv_def)
next
  case (fclones m f)
  then have "reports s' = reports s" by (simp add: reports_fclones)
  with fclones assms(2) show ?thesis by (auto simp: local_inv_def)
qed (use assms(2) in \<open>auto simp: local_inv_def\<close>)

lemma sweep_step_inv:
  assumes "sweep_step p s s'" "local_inv s (sh_lock s) p (sh_at s p)"
  shows "local_inv s' (sh_lock s') p (sh_at s' p)"
  using assms(1) by (cases rule: sweep_step.cases) (use assms(2) in \<open>auto simp: local_inv_def\<close>)

lemma process_step_inv:
  assumes "cstep a s s'" "concerns a p" "local_inv s (sh_lock s) p (sh_at s p)"
  shows "local_inv s' (sh_lock s') p (sh_at s' p)"
  using assms(1)
proof (cases rule: cstep.cases)
  case (killed q)
  then show ?thesis using assms(2,3) by (cases "sh_at s p") (auto simp: local_inv_def concerns_def)
qed (use assms(2,3) job_step_inv sweep_step_inv in \<open>auto simp: concerns_def\<close>)

text \<open>Another program changes no report but an orphan.\<close>

lemma other_step:
  assumes "cstep Other s s'"
  shows "reports s' = reports s \<and> sh_lock s' = sh_lock s \<and> sh_at s' = sh_at s \<and> sh_orphans s' = sh_orphans s"
  using assms
proof (cases rule: cstep.cases)
  case (late_write m c out)
  then show ?thesis by (auto simp: reports_def)
next
  case (other m c)
  then show ?thesis by (auto simp: reports_def)
qed

lemma mover_cases: "a = Other \<or> (\<exists>p. concerns a p)"
  by (cases a) (auto simp: concerns_def)

lemma sharing_step:
  assumes "cstep a s s'" "sharing_inv s"
  shows "sharing_inv s'"
proof (cases "a = Other")
  case True
  then have o: "cstep Other s s'" using assms(1) by simp
  have "stage_ok s' st = stage_ok s st" for st using other_step [OF o] by (cases st) auto
  then show ?thesis using other_step [OF o] assms(2) by (simp add: sharing_inv_def)
next
  case False
  then obtain p where "concerns a p" using mover_cases by blast
  then show ?thesis
    using mover_alone [OF assms(1) _ assms(2)] sharing_inv_alone process_step_inv [OF assms(1)] assms(2) by metis
qed

lemma sharing_init: "sharing_inv (sh_init files)"
proof -
  have "stage_ok s Away" for s :: "'b shared" by simp
  then show ?thesis using reports_init [of files] by (simp add: sharing_inv_def) (simp add: sh_init_def)
qed

interpretation sharing: step_invariant moves sharing_inv
  by unfold_locales (auto simp: moves_def intro: sharing_step)

lemma shreach_inv: "shreach files s \<Longrightarrow> sharing_inv s"
  unfolding shreach_def by (rule sharing.runs_keep [OF _ sharing_init])

lemmas sharing_facts = shreach_inv [unfolded sharing_inv_def]

subsection \<open>What the lock protects\<close>

lemma reporting_at: "sharing_inv s \<Longrightarrow> sh_at s p = Reporting m \<Longrightarrow> m \<in> reports s \<and> m \<notin> sh_orphans s"
  unfolding sharing_inv_def by (metis stage_ok_simps(5))

lemma undisturbed:
  assumes "sharing_inv s" "sh_at s p = Reporting m" "cstep a s s'" "\<not> concerns a p"
  shows "sh_files s' m = sh_files s m \<and> sh_at s' p = Reporting m"
proof (cases "a = Other")
  case False
  then obtain q where q: "concerns a q" "q \<noteq> p" using mover_cases assms(4) by blast
  then have "\<not> alone q s" using assms(2) by (auto simp: alone_def)
  then have "s' = s" using mover_alone [OF assms(3) q(1) assms(1)] by blast
  then show ?thesis using assms(2) by simp
next
  case True
  have "m \<notin> sh_orphans s" "matches_temp cacheDir m"
    using reporting_at [OF assms(1,2)] by (auto simp: reports_def)
  moreover have "cstep Other s s'" using assms(3) True by simp
  then show ?thesis using \<open>m \<notin> sh_orphans s\<close> \<open>matches_temp cacheDir m\<close> assms(2)
    by (cases rule: cstep.cases) auto
qed

text \<open>
  C11. Nobody touches a report in use: from the creation of a report to its removal the file exists, and
  no step of any other process (its sweep, its jobs, its being killed) and of no other program changes
  or removes it, so what the decoder and the action read is what the scan of this process wrote.
\<close>

theorem report_undisturbed:
  assumes "shreach files s" "sh_at s p = Reporting m"
  shows "sh_files s m \<noteq> None \<and> matches_temp cacheDir m \<and>
    (\<forall>a s'. cstep a s s' \<longrightarrow> a \<noteq> Proc p \<longrightarrow> a \<noteq> Kill p \<longrightarrow> sh_files s' m = sh_files s m \<and> sh_at s' p = Reporting m)"
  using undisturbed [OF shreach_inv [OF assms(1)] assms(2)]
    reporting_at [OF shreach_inv [OF assms(1)] assms(2)] by (auto simp: reports_def concerns_def)

lemma locked_sections:
  assumes "sharing_inv s"
  shows "sh_at s p \<noteq> Away \<longleftrightarrow> sh_lock s = Some p"
    and "reports s = sh_orphans s \<union> (case sh_lock s of None \<Rightarrow> {} | Some q \<Rightarrow> reporting (sh_at s q))"
proof -
  show l: "sh_at s p \<noteq> Away \<longleftrightarrow> sh_lock s = Some p" for p using assms by (simp add: sharing_inv_def)
  have r: "reports s = sh_orphans s \<union> (\<Union>q. reporting (sh_at s q))" using assms by (simp add: sharing_inv_def)
  show "reports s = sh_orphans s \<union> (case sh_lock s of None \<Rightarrow> {} | Some q \<Rightarrow> reporting (sh_at s q))"
  proof (cases "sh_lock s")
    case None
    then have "sh_at s q = Away" for q using l [of q] by simp
    then show ?thesis using r None by simp
  next
    case (Some q)
    then have "alone q s" using l [of q] holder_alone [OF assms] by simp
    then show ?thesis using r Some alone_reporting [of q s] by simp
  qed
qed

lemma swept:
  assumes "sharing_inv s" "sh_at s p = Sweeping ms failed"
  shows "reports s = set ms \<union> failed \<and> sh_orphans s = set ms \<union> failed"
proof -
  have "reports s = set ms \<union> failed"
    using assms unfolding sharing_inv_def by (metis stage_ok_simps(6))
  moreover have "sh_lock s = Some p" using locked_sections(1) [OF assms(1)] assms(2) by fastforce
  ultimately show ?thesis using locked_sections(2) [OF assms(1)] assms(2) by simp
qed

text \<open>
  C13. Mutual exclusion, and no leak: at any time at most one process is in a section that holds the
  lock, the one the lock names; the reports on the volume are the orphans of killed processes and
  failed removals, and the one the holder works on; and when a sweep is at the end of its loop, every
  orphan is gone but those whose removal failed.
\<close>

theorem sharing_exclusive:
  assumes "shreach files s"
  shows "(sh_at s p \<noteq> Away \<longleftrightarrow> sh_lock s = Some p) \<and>
    reports s = sh_orphans s \<union> (case sh_lock s of None \<Rightarrow> {} | Some q \<Rightarrow> reporting (sh_at s q)) \<and>
    (\<forall>failed. sh_at s p = Sweeping [] failed \<longrightarrow> reports s = failed)"
  using locked_sections [OF shreach_inv [OF assms]] swept [OF shreach_inv [OF assms], of p "[]"]
  unfolding list.set(1) sup_bot_left by blast

text \<open>
  A sweep reclaims every orphan, whichever process left it: when its loop is done, the reports on
  the volume are those whose removal failed, and nothing else; without a failure there is none.
\<close>

theorem sweep_reclaims:
  assumes "shreach files s" "sh_at s p = Sweeping [] failed"
  shows "reports s = failed \<and> sh_orphans s = failed"
  using swept [OF shreach_inv [OF assms(1)] assms(2)] by simp

subsection \<open>The sequential definitions are runs\<close>

text \<open>
  The section of a job, run to its end: \<open>f\<close> are the files at the end of the scan, \<open>g\<close> those before the
  removal of the report.
\<close>

lemma job_section:
  assumes "sh_at s p = Away" "sh_lock s = None" "sh_files s m = None" "matches_temp cacheDir m" "m \<notin> sh_orphans s"
    and "\<And>n. matches_temp cacheDir n \<Longrightarrow> g n = f n" "\<And>n. matches_temp cacheDir n \<Longrightarrow> n \<noteq> m \<Longrightarrow> f n = sh_files s n"
    and "f m = Some c"
  shows "\<exists>s1 s'. (job_step p)\<^sup>*\<^sup>* s s1 \<and> (job_step p)\<^sup>*\<^sup>* s1 s' \<and>
    sh_at s1 p = Reporting m \<and> sh_lock s1 = Some p \<and> sh_files s1 m = Some c \<and>
    sh_files s' = (if fails then g else g(m := None)) \<and> sh_lock s' = None \<and> sh_at s' = sh_at s \<and>
    sh_orphans s' = sh_orphans s \<union> (if fails then {m} else {})"
proof -
  let ?s1 = "goto p Entered (s\<lparr>sh_lock := Some p\<rparr>)"
  let ?s2 = "goto p (Reporting m) (set_file m (Some []) ?s1)"
  let ?s3 = "set_file m (Some ([] @ c)) ?s2"
  let ?s4 = "?s3\<lparr>sh_files := f\<rparr>"
  let ?s5 = "?s4\<lparr>sh_files := g\<rparr>"
  let ?s6 = "if fails then goto p Leaving (orphan {m} ?s5) else goto p Leaving (unlink m ?s5)"
  let ?s7 = "goto p Away (?s6\<lparr>sh_lock := None\<rparr>)"
  have "job_step p s ?s1" using assms by (intro job_lock)
  moreover have "job_step p ?s1 ?s2" using assms by (intro create) simp_all
  moreover have "job_step p ?s2 ?s3" by (intro written) simp_all
  moreover have "job_step p ?s3 ?s4" using assms(7,8) by (intro fclones) auto
  moreover have "job_step p ?s4 ?s5" using assms(6) by (intro fclones) auto
  moreover have "job_step p ?s5 ?s6" using remove [of ?s5 p m] remove_fails [of ?s5 p m] by simp
  moreover have "job_step p ?s6 ?s7" by (intro job_unlock) simp
  ultimately have "(job_step p)\<^sup>*\<^sup>* s ?s4" "(job_step p)\<^sup>*\<^sup>* ?s4 ?s7"
    by (meson converse_rtranclp_into_rtranclp rtranclp.rtrancl_refl)+
  then show ?thesis using assms by (intro exI [of _ ?s4] exI [of _ ?s7]) (auto simp: fun_upd_idem)
qed

text \<open>The section of a sweep.\<close>

lemma sweep_section_loop:
  assumes "sh_at s p = Sweeping ms failed"
  shows "\<exists>s' F. (sweep_step p)\<^sup>*\<^sup>* s s' \<and> sh_at s' = (sh_at s)(p := Sweeping [] F) \<and> sh_lock s' = sh_lock s \<and>
    sh_orphans s' = sh_orphans s - {m \<in> set ms. fails m = None} \<and>
    sh_files s' = (\<lambda>m. if m \<in> set ms \<and> fails m = None then None else sh_files s m)"
  using assms
proof (induction ms arbitrary: s failed)
  case Nil
  then show ?case by (intro exI [of _ s] exI [of _ failed]) (simp add: fun_upd_idem)
next
  case (Cons m ms)
  define s1 where "s1 = (if fails m = None then goto p (Sweeping ms failed) (unlink m s)
    else goto p (Sweeping ms (insert m failed)) s)"
  have c: "sweep_step p s s1"
    using sweep [OF Cons.prems] sweep_fails [OF Cons.prems] by (simp add: s1_def)
  have "\<exists>F. sh_at s1 p = Sweeping ms F" by (simp add: s1_def)
  then obtain s' F where "(sweep_step p)\<^sup>*\<^sup>* s1 s'" "sh_at s' = (sh_at s1)(p := Sweeping [] F)" "sh_lock s' = sh_lock s1"
    "sh_orphans s' = sh_orphans s1 - {m \<in> set ms. fails m = None}"
    "sh_files s' = (\<lambda>m. if m \<in> set ms \<and> fails m = None then None else sh_files s1 m)"
    using Cons.IH by blast
  then show ?case
    using converse_rtranclp_into_rtranclp [of "sweep_step p", OF c]
    by (intro exI [of _ s'] exI [of _ F]) (auto simp: s1_def fun_eq_iff)
qed

lemma sweep_section:
  assumes "sh_at s p = Away" "sh_lock s = None" "set ms = reports s" "distinct ms"
  shows "\<exists>s1 s'. (sweep_step p)\<^sup>*\<^sup>* s s1 \<and> (sweep_step p)\<^sup>*\<^sup>* s1 s' \<and> sh_at s1 p = Sweeping ms {} \<and> sh_lock s1 = Some p \<and>
    sh_files s' = (\<lambda>m. if m \<in> set ms \<and> fails m = None then None else sh_files s m) \<and>
    sh_orphans s' = sh_orphans s - {m \<in> set ms. fails m = None} \<and>
    sh_lock s' = None \<and> sh_at s' = sh_at s"
proof -
  let ?s1 = "goto p Globbing (s\<lparr>sh_lock := Some p\<rparr>)"
  let ?s2 = "goto p (Sweeping ms {}) ?s1"
  have "sh_at ?s2 p = Sweeping ms {}" by simp
  from sweep_section_loop [OF this, of fails] obtain s3 F where
    s3: "(sweep_step p)\<^sup>*\<^sup>* ?s2 s3" "sh_at s3 = (sh_at ?s2)(p := Sweeping [] F)"
    "sh_orphans s3 = sh_orphans ?s2 - {m \<in> set ms. fails m = None}"
    "sh_files s3 = (\<lambda>m. if m \<in> set ms \<and> fails m = None then None else sh_files ?s2 m)" by blast
  have same: "sh_files ?s2 = sh_files s" "sh_orphans ?s2 = sh_orphans s" by simp_all
  let ?s4 = "goto p Leaving s3"
  let ?s5 = "goto p Away (?s4\<lparr>sh_lock := None\<rparr>)"
  have "sweep_step p s ?s1" using assms by (intro sweep_lock)
  moreover have "sweep_step p ?s1 ?s2" using assms by (intro glob) simp_all
  ultimately have run1: "(sweep_step p)\<^sup>*\<^sup>* s ?s2"
    by (meson converse_rtranclp_into_rtranclp rtranclp.rtrancl_refl)
  have "sweep_step p s3 ?s4" using s3(2) by (intro sweep_ends [of _ _ F]) simp
  moreover have "sweep_step p ?s4 ?s5" by (intro sweep_unlock) simp
  ultimately have run2: "(sweep_step p)\<^sup>*\<^sup>* ?s2 ?s5"
    using s3(1) by (meson rtranclp.rtrancl_into_rtrancl)
  show ?thesis
    using assms s3(2) s3(3,4) [unfolded same]
    by (intro exI [of _ ?s2] exI [of _ ?s5] conjI run1 run2) (auto simp: fun_upd_idem)
qed

text \<open>A section that ends before it has a report to write, or names to sweep.\<close>

lemma early_exit:
  assumes "sh_at s p = Away" "sh_lock s = None"
  shows "\<exists>s1 s'. (job_step p)\<^sup>*\<^sup>* s s1 \<and> (job_step p)\<^sup>*\<^sup>* s1 s' \<and> sh_lock s1 = Some p \<and>
      sh_files s' = sh_files s \<and> sh_orphans s' = sh_orphans s \<and> sh_lock s' = None \<and> sh_at s' = sh_at s"
    and "\<exists>s1 s'. (sweep_step p)\<^sup>*\<^sup>* s s1 \<and> (sweep_step p)\<^sup>*\<^sup>* s1 s' \<and> sh_lock s1 = Some p \<and>
      sh_files s' = sh_files s \<and> sh_orphans s' = sh_orphans s \<and> sh_lock s' = None \<and> sh_at s' = sh_at s"
proof -
  let ?e = "goto p Entered (s\<lparr>sh_lock := Some p\<rparr>)" and ?g = "goto p Globbing (s\<lparr>sh_lock := Some p\<rparr>)"
  have "job_step p s ?e" using assms by (intro job_lock)
  moreover have "job_step p ?e (goto p Leaving ?e)" by (intro job_fails) simp
  moreover have "job_step p (goto p Leaving ?e) (goto p Away ((goto p Leaving ?e)\<lparr>sh_lock := None\<rparr>))"
    by (intro job_unlock) simp
  ultimately have "(job_step p)\<^sup>*\<^sup>* s ?e" "(job_step p)\<^sup>*\<^sup>* ?e (goto p Away ((goto p Leaving ?e)\<lparr>sh_lock := None\<rparr>))"
    by (meson converse_rtranclp_into_rtranclp rtranclp.rtrancl_refl)+
  then show "\<exists>s1 s'. (job_step p)\<^sup>*\<^sup>* s s1 \<and> (job_step p)\<^sup>*\<^sup>* s1 s' \<and> sh_lock s1 = Some p \<and>
      sh_files s' = sh_files s \<and> sh_orphans s' = sh_orphans s \<and> sh_lock s' = None \<and> sh_at s' = sh_at s"
    using assms by (intro exI [of _ ?e] exI [of _ "goto p Away ((goto p Leaving ?e)\<lparr>sh_lock := None\<rparr>)"])
      (simp add: fun_upd_idem)
  have "sweep_step p s ?g" using assms by (intro sweep_lock)
  moreover have "sweep_step p ?g (goto p Leaving ?g)" by (intro glob_fails) simp
  moreover have "sweep_step p (goto p Leaving ?g) (goto p Away ((goto p Leaving ?g)\<lparr>sh_lock := None\<rparr>))"
    by (intro sweep_unlock) simp
  ultimately have "(sweep_step p)\<^sup>*\<^sup>* s ?g" "(sweep_step p)\<^sup>*\<^sup>* ?g (goto p Away ((goto p Leaving ?g)\<lparr>sh_lock := None\<rparr>))"
    by (meson converse_rtranclp_into_rtranclp rtranclp.rtrancl_refl)+
  then show "\<exists>s1 s'. (sweep_step p)\<^sup>*\<^sup>* s s1 \<and> (sweep_step p)\<^sup>*\<^sup>* s1 s' \<and> sh_lock s1 = Some p \<and>
      sh_files s' = sh_files s \<and> sh_orphans s' = sh_orphans s \<and> sh_lock s' = None \<and> sh_at s' = sh_at s"
    using assms by (intro exI [of _ ?g] exI [of _ "goto p Away ((goto p Leaving ?g)\<lparr>sh_lock := None\<rparr>)"])
      (simp add: fun_upd_idem)
qed

lemma orphans_are_reports: "sharing_inv s \<Longrightarrow> sh_orphans s \<subseteq> reports s"
  by (auto simp: sharing_inv_def)

lemma job_is_run:
  assumes inv: "sharing_inv s" and at: "sh_at s p = Away" and w: "w_fs w = sh_files s"
    and lock: "je_TryLock E = Inr True" "sh_lock s = None"
    and fresh: "\<And>m. je_CreateTemp E = Inr m \<Longrightarrow> sh_files s m = None \<and> matches_temp cacheDir m"
    and touch: "\<And>n. matches_temp cacheDir n \<Longrightarrow> left_alone E cfg n"
  shows "\<exists>s1 s'. (job_step p)\<^sup>*\<^sup>* s s1 \<and> (job_step p)\<^sup>*\<^sup>* s1 s' \<and>
    sh_files s' = w_fs (snd (runFclonesJob E ctx cfg trig w)) \<and> sh_lock s' = None \<and> sh_at s' = sh_at s \<and>
    sh_orphans s' = sh_orphans s \<union> {m. report_of E cfg m \<and> je_removeFails E} \<and> sh_lock s1 = Some p \<and>
    (\<forall>m. report_of E cfg m \<longrightarrow> sh_at s1 p = Reporting m \<and> sh_files s1 m = Some (scan_output E ctx cfg))"
proof (cases "\<exists>m. report_of E cfg m")
  case True
  then obtain m where m: "report_of E cfg m" ..
  then have one: "report_of E cfg n \<longleftrightarrow> n = m" for n by (auto simp: report_of_def)
  have mf: "sh_files s m = None" "matches_temp cacheDir m" using fresh m by (auto simp: report_of_def)
  then have "m \<notin> sh_orphans s" using orphans_are_reports [OF inv] by (auto simp: reports_def)
  obtain f g where fg: "f m = Some (scan_output E ctx cfg)"
    "\<forall>n. left_alone E cfg n \<longrightarrow> g n = f n \<and> (n \<noteq> m \<longrightarrow> f n = w_fs w n)"
    "w_fs (snd (runFclonesJob E ctx cfg trig w)) = (if je_removeFails E then g else g(m := None))"
    using job_files [OF m] by blast
  have ft: "g n = f n" "n \<noteq> m \<Longrightarrow> f n = sh_files s n" if "matches_temp cacheDir n" for n
    using fg(2) touch [OF that] w by simp_all
  have run: "\<exists>s1 s'. (job_step p)\<^sup>*\<^sup>* s s1 \<and> (job_step p)\<^sup>*\<^sup>* s1 s' \<and>
      sh_at s1 p = Reporting m \<and> sh_lock s1 = Some p \<and> sh_files s1 m = Some (scan_output E ctx cfg) \<and>
      sh_files s' = (if je_removeFails E then g else g(m := None)) \<and> sh_lock s' = None \<and> sh_at s' = sh_at s \<and>
      sh_orphans s' = sh_orphans s \<union> (if je_removeFails E then {m} else {})"
    by (rule job_section [where f = f]) (use at lock(2) mf \<open>m \<notin> sh_orphans s\<close> fg(1) in \<open>simp_all add: ft\<close>)
  have left: "{n. report_of E cfg n \<and> je_removeFails E} = (if je_removeFails E then {m} else {})"
    using one by auto
  from run obtain s1 s' where "(job_step p)\<^sup>*\<^sup>* s s1" "(job_step p)\<^sup>*\<^sup>* s1 s'" "sh_at s1 p = Reporting m"
    "sh_lock s1 = Some p" "sh_files s1 m = Some (scan_output E ctx cfg)"
    "sh_files s' = (if je_removeFails E then g else g(m := None))" "sh_lock s' = None" "sh_at s' = sh_at s"
    "sh_orphans s' = sh_orphans s \<union> (if je_removeFails E then {m} else {})" by blast
  then show ?thesis unfolding fg(3) left by (intro exI [of _ s1] exI [of _ s']) (simp add: one)
next
  case False
  then have "w_fs (snd (runFclonesJob E ctx cfg trig w)) = sh_files s" "{m. report_of E cfg m \<and> je_removeFails E} = {}"
    using no_report_files [of E cfg] w by auto
  moreover obtain s1 s' where "(job_step p)\<^sup>*\<^sup>* s s1" "(job_step p)\<^sup>*\<^sup>* s1 s'" "sh_lock s1 = Some p"
    "sh_files s' = sh_files s" "sh_orphans s' = sh_orphans s" "sh_lock s' = None" "sh_at s' = sh_at s"
    using early_exit(1) [OF at lock(2)] by blast
  ultimately show ?thesis using False by (intro exI [of _ s1] exI [of _ s']) auto
qed

lemma sweep_is_run:
  assumes at: "sh_at s p = Away" and w: "w_fs w = sh_files s" and lock: "sh_lock s = None"
    and "glob = Some names" "distinct names" "set names = {m. sh_files s m \<noteq> None}"
    and inv: "sharing_inv s"
  shows "\<exists>s1 s'. (sweep_step p)\<^sup>*\<^sup>* s s1 \<and> (sweep_step p)\<^sup>*\<^sup>* s1 s' \<and>
    sh_files s' = w_fs (cleanStaleReports (Inr True) fails glob w) \<and> sh_lock s' = None \<and> sh_at s' = sh_at s \<and>
    sh_orphans s' = {m \<in> sh_orphans s. fails m \<noteq> None} \<and> sh_lock s1 = Some p \<and>
    (\<exists>ms. sh_at s1 p = Sweeping ms {} \<and> set ms = reports s)"
proof -
  let ?ms = "filter (matches_temp cacheDir) names"
  have ms: "set ?ms = reports s" "distinct ?ms" using assms(5,6) by (auto simp: reports_def)
  have "w_fs (cleanStaleReports (Inr True) fails glob w)
      = (\<lambda>m. if m \<in> set ?ms \<and> fails m = None then None else sh_files s m)"
    by (simp add: cleanStaleReports_def sweepStaleReports_def assms(4) fun_eq_iff sweep_loop_fs w)
  moreover have "sh_orphans s - {m \<in> set ?ms. fails m = None} = {m \<in> sh_orphans s. fails m \<noteq> None}"
    using orphans_are_reports [OF inv] ms(1) by auto
  moreover obtain s1 s' where "(sweep_step p)\<^sup>*\<^sup>* s s1" "(sweep_step p)\<^sup>*\<^sup>* s1 s'" "sh_at s1 p = Sweeping ?ms {}"
    "sh_lock s1 = Some p" "sh_files s' = (\<lambda>m. if m \<in> set ?ms \<and> fails m = None then None else sh_files s m)"
    "sh_orphans s' = sh_orphans s - {m \<in> set ?ms. fails m = None}" "sh_lock s' = None" "sh_at s' = sh_at s"
    using sweep_section [OF at lock ms, of fails] by blast
  ultimately show ?thesis using ms(1) by (intro exI [of _ s1] exI [of _ s']) simp
qed

text \<open>
  C12. The sequential definitions are runs of the shared volume, from every state that can be reached. What
  \<open>runFclonesJob\<close> does is the section of one process, run to its end: with the lock, the run passes
  through a state in which the process holds it, and when the job creates a report that state has the
  report with the whole output of the scan; it ends with the files the job leaves, the lock released (as
  the job says), the process away, and one orphan more exactly when the removal of its report failed.
  What \<open>cleanStaleReports\<close> does is likewise the section of a sweep: it passes through a state that has
  every report on its list, and takes from the orphans exactly those whose removal succeeded. Without
  the lock neither does anything. This holds if the lock is granted only when it is free, a temporary
  name is fresh and named by the pattern, a listing is the names that exist, and fclones changes no file
  named by the pattern but the report it was given.
\<close>

theorem sections_are_runs:
  assumes "shreach files s" "sh_at s p = Away" "w_fs w = sh_files s" "\<not> w_locked w"
    and "je_TryLock E = Inr True \<Longrightarrow> sh_lock s = None" "lock = Inr True \<Longrightarrow> sh_lock s = None"
    and "\<And>m. je_CreateTemp E = Inr m \<Longrightarrow> sh_files s m = None \<and> matches_temp cacheDir m"
    and "\<And>names. glob = Some names \<Longrightarrow> distinct names \<and> set names = {m. sh_files s m \<noteq> None}"
    and "\<And>n. matches_temp cacheDir n \<Longrightarrow> left_alone E cfg n"
    and "w1 = snd (runFclonesJob E ctx cfg trig w)" "w2 = cleanStaleReports lock fails glob w"
  shows "(\<exists>s1 s'. (job_step p)\<^sup>*\<^sup>* s s1 \<and> (job_step p)\<^sup>*\<^sup>* s1 s' \<and>
      sh_files s' = w_fs w1 \<and> sh_at s' = sh_at s \<and> sh_lock s' = sh_lock s \<and> w_locked w1 = (sh_lock s' = Some p) \<and>
      sh_orphans s' = sh_orphans s \<union> {m. report_of E cfg m \<and> je_removeFails E} \<and>
      (je_TryLock E = Inr True \<longrightarrow> sh_lock s1 = Some p) \<and> (je_TryLock E \<noteq> Inr True \<longrightarrow> s' = s) \<and>
      (\<forall>m. report_of E cfg m \<longrightarrow> sh_at s1 p = Reporting m \<and> sh_files s1 m = Some (scan_output E ctx cfg))) \<and>
    (\<exists>s1 s'. (sweep_step p)\<^sup>*\<^sup>* s s1 \<and> (sweep_step p)\<^sup>*\<^sup>* s1 s' \<and>
      sh_files s' = w_fs w2 \<and> sh_at s' = sh_at s \<and> sh_lock s' = sh_lock s \<and> w_locked w2 = (sh_lock s' = Some p) \<and>
      sh_orphans s' = (if lock = Inr True \<and> glob \<noteq> None then {m \<in> sh_orphans s. fails m \<noteq> None} else sh_orphans s) \<and>
      (lock = Inr True \<longrightarrow> sh_lock s1 = Some p) \<and> (lock \<noteq> Inr True \<longrightarrow> s' = s) \<and>
      (lock = Inr True \<longrightarrow> glob \<noteq> None \<longrightarrow> (\<exists>ms. sh_at s1 p = Sweeping ms {} \<and> set ms = reports s)))"
proof
  note inv = shreach_inv [OF assms(1)]
  have free: "sh_lock s \<noteq> Some p" using locked_sections(1) [OF inv, of p] assms(2) by simp
  have jl: "w_locked w1 = False"
    using job_steps [of E ctx cfg trig w] assms(4) by (auto simp: Let_def assms(10) split: if_splits)
  have sl: "w_locked w2 = False"
    using assms(4) by (auto simp: assms(11) cleanStaleReports_def sweepStaleReports_def split: sum.split bool.split)
  show "\<exists>s1 s'. (job_step p)\<^sup>*\<^sup>* s s1 \<and> (job_step p)\<^sup>*\<^sup>* s1 s' \<and>
      sh_files s' = w_fs w1 \<and> sh_at s' = sh_at s \<and> sh_lock s' = sh_lock s \<and> w_locked w1 = (sh_lock s' = Some p) \<and>
      sh_orphans s' = sh_orphans s \<union> {m. report_of E cfg m \<and> je_removeFails E} \<and>
      (je_TryLock E = Inr True \<longrightarrow> sh_lock s1 = Some p) \<and> (je_TryLock E \<noteq> Inr True \<longrightarrow> s' = s) \<and>
      (\<forall>m. report_of E cfg m \<longrightarrow> sh_at s1 p = Reporting m \<and> sh_files s1 m = Some (scan_output E ctx cfg))"
  proof (cases "je_TryLock E = Inr True")
    case True
    note l = assms(5) [OF True]
    from job_is_run [OF inv assms(2,3) True l assms(7,9), of ctx trig] obtain s1 s' where
      r: "(job_step p)\<^sup>*\<^sup>* s s1" "(job_step p)\<^sup>*\<^sup>* s1 s'" "sh_files s' = w_fs w1" "sh_lock s' = None" "sh_at s' = sh_at s"
      "sh_orphans s' = sh_orphans s \<union> {m. report_of E cfg m \<and> je_removeFails E}" "sh_lock s1 = Some p"
      "\<forall>m. report_of E cfg m \<longrightarrow> sh_at s1 p = Reporting m \<and> sh_files s1 m = Some (scan_output E ctx cfg)"
      unfolding assms(10) [symmetric] by blast
    show ?thesis
      by (intro exI [of _ s1] exI [of _ s']) (use r in \<open>simp add: jl l True\<close>)
  next
    case False
    then have "\<And>m. \<not> report_of E cfg m" by (simp add: report_of_def)
    moreover from this have "w_fs w1 = sh_files s" using no_report_files [of E cfg] assms(3) by (simp add: assms(10))
    ultimately show ?thesis unfolding jl using False free by (intro exI [of _ s]) simp
  qed
  show "\<exists>s1 s'. (sweep_step p)\<^sup>*\<^sup>* s s1 \<and> (sweep_step p)\<^sup>*\<^sup>* s1 s' \<and>
      sh_files s' = w_fs w2 \<and> sh_at s' = sh_at s \<and> sh_lock s' = sh_lock s \<and> w_locked w2 = (sh_lock s' = Some p) \<and>
      sh_orphans s' = (if lock = Inr True \<and> glob \<noteq> None then {m \<in> sh_orphans s. fails m \<noteq> None} else sh_orphans s) \<and>
      (lock = Inr True \<longrightarrow> sh_lock s1 = Some p) \<and> (lock \<noteq> Inr True \<longrightarrow> s' = s) \<and>
      (lock = Inr True \<longrightarrow> glob \<noteq> None \<longrightarrow> (\<exists>ms. sh_at s1 p = Sweeping ms {} \<and> set ms = reports s))"
  proof (cases "lock = Inr True")
    case True
    note l = assms(6) [OF True]
    show ?thesis
    proof (cases glob)
      case None
      then have "w_fs w2 = sh_files s"
        by (simp add: assms(3,11) True cleanStaleReports_def sweepStaleReports_def)
      moreover obtain s1 s' where "(sweep_step p)\<^sup>*\<^sup>* s s1" "(sweep_step p)\<^sup>*\<^sup>* s1 s'" "sh_lock s1 = Some p"
        "sh_files s' = sh_files s" "sh_orphans s' = sh_orphans s" "sh_lock s' = None" "sh_at s' = sh_at s"
        using early_exit(2) [OF assms(2) l] by blast
      ultimately show ?thesis using True None by (intro exI [of _ s1] exI [of _ s']) (simp add: sl l)
    next
      case (Some names)
      from sweep_is_run [OF assms(2,3) l Some _ _ inv, of fails] assms(8) [OF Some] obtain s1 s' where
        r: "(sweep_step p)\<^sup>*\<^sup>* s s1" "(sweep_step p)\<^sup>*\<^sup>* s1 s'" "sh_files s' = w_fs w2" "sh_lock s' = None" "sh_at s' = sh_at s"
        "sh_orphans s' = {m \<in> sh_orphans s. fails m \<noteq> None}" "sh_lock s1 = Some p"
        "\<exists>ms. sh_at s1 p = Sweeping ms {} \<and> set ms = reports s"
        unfolding assms(11) True by blast
      show ?thesis
        by (intro exI [of _ s1] exI [of _ s']) (use r in \<open>simp add: sl l True Some\<close>)
    qed
  next
    case False
    then have "w_fs w2 = sh_files s"
      by (auto simp: assms(3,11) cleanStaleReports_def split: sum.split bool.split)
    then show ?thesis unfolding sl using False free by (intro exI [of _ s]) simp
  qed
qed

subsection \<open>Recovery\<close>

text \<open>The holder of the lock gets out of its section by its own moves, from wherever it is.\<close>

lemma section_moves: "(job_step p)\<^sup>*\<^sup>* s s' \<Longrightarrow> (cstep (Proc p))\<^sup>*\<^sup>* s s'" "(sweep_step p)\<^sup>*\<^sup>* s s' \<Longrightarrow> (cstep (Proc p))\<^sup>*\<^sup>* s s'"
  by (erule rtranclp_mono [THEN predicate2D, rotated], blast intro: cstep.intros)+

lemma leave:
  assumes "sh_at s p = Leaving"
  shows "(cstep (Proc p))\<^sup>*\<^sup>* s (goto p Away (s\<lparr>sh_lock := None\<rparr>))"
  by (rule r_into_rtranclp) (rule cstep.job [OF job_unlock [OF assms]])

lemma runs_then_leave:
  assumes "(cstep (Proc p))\<^sup>*\<^sup>* s s1" "sh_at s1 = (sh_at s)(p := Leaving)"
  shows "\<exists>s'. (cstep (Proc p))\<^sup>*\<^sup>* s s' \<and> sh_lock s' = None \<and> sh_at s' = (sh_at s)(p := Away)"
proof -
  have "sh_at s1 p = Leaving" using assms(2) by simp
  note run = rtranclp_trans [OF assms(1) leave [OF this]]
  show ?thesis
    by (intro exI [of _ "goto p Away (s1\<lparr>sh_lock := None\<rparr>)"]) (simp add: run assms(2))
qed

lemma step_then_leave:
  assumes "cstep (Proc p) s s1" "sh_at s1 = (sh_at s)(p := Leaving)"
  shows "\<exists>s'. (cstep (Proc p))\<^sup>*\<^sup>* s s' \<and> sh_lock s' = None \<and> sh_at s' = (sh_at s)(p := Away)"
  by (rule runs_then_leave [OF r_into_rtranclp [of "cstep (Proc p)", OF assms(1)] assms(2)])

lemma section_ends:
  assumes "sh_at s p \<noteq> Away"
  shows "\<exists>s'. (cstep (Proc p))\<^sup>*\<^sup>* s s' \<and> sh_lock s' = None \<and> sh_at s' = (sh_at s)(p := Away)"
proof (cases "sh_at s p")
  case Entered
  then show ?thesis by (intro step_then_leave [OF cstep.job [OF job_fails]]) simp_all
next
  case (Reporting m)
  then show ?thesis by (intro step_then_leave [OF cstep.job [OF remove]]) simp_all
next
  case Globbing
  then show ?thesis by (intro step_then_leave [OF cstep.sweeping [OF glob_fails]]) simp_all
next
  case (Sweeping ms failed)
  from sweep_section_loop [OF this, of "\<lambda>_. None"] obtain s1 F where
    s1: "(sweep_step p)\<^sup>*\<^sup>* s s1" "sh_at s1 = (sh_at s)(p := Sweeping [] F)" by blast
  then have "sweep_step p s1 (goto p Leaving s1)" by (intro sweep_ends [of _ _ F]) simp
  then have "(sweep_step p)\<^sup>*\<^sup>* s (goto p Leaving s1)" using s1(1) by (rule rtranclp.rtrancl_into_rtrancl [rotated])
  from section_moves(2) [OF this] show ?thesis using s1(2) by (intro runs_then_leave) auto
next
  case Leaving
  then show ?thesis by (intro runs_then_leave [OF rtranclp.rtrancl_refl]) (simp add: fun_upd_idem)
qed (use assms in simp)

lemma finite_reports_step:
  assumes "cstep a s s'" "finite (reports s)"
  shows "finite (reports s')"
proof (cases "a = Other")
  case True
  then show ?thesis using assms other_step by metis
next
  case False
  with assms(1,2) show ?thesis
    by (cases rule: cstep.cases) (auto elim!: job_stepE sweep_stepE simp: reports_fclones)
qed

interpretation few_reports: step_invariant moves "\<lambda>s. finite (reports s)"
  by unfold_locales (auto simp: moves_def intro: finite_reports_step)

text \<open>Moves of processes only: nobody is killed.\<close>

definition proc_moves :: "'p shared \<Rightarrow> 'p shared \<Rightarrow> bool" where
  "proc_moves s s' \<longleftrightarrow> (\<exists>p. cstep (Proc p) s s')"

lemma proc_runs: "(cstep (Proc p))\<^sup>*\<^sup>* s s' \<Longrightarrow> proc_moves\<^sup>*\<^sup>* s s'"
  by (rule rtranclp_mono [THEN predicate2D, rotated]) (auto simp: proc_moves_def)

lemma proc_runs_reach: "shreach files s \<Longrightarrow> proc_moves\<^sup>*\<^sup>* s s' \<Longrightarrow> shreach files s'"
  unfolding shreach_def
  by (erule rtranclp_trans, rule rtranclp_mono [THEN predicate2D, rotated]) (auto simp: proc_moves_def moves_def)

text \<open>
  C14. The volume always recovers: from every reachable state, whatever processes were killed and whatever
  removals failed on the way there, the processes alone can get, by the ends of their own sections
  and one sweep, to a state in which the lock is free, nobody is in a locked section and no report
  is left.
\<close>

theorem volume_recovers:
  assumes "shreach files s" "finite {m. files m \<noteq> None}"
  shows "\<exists>s'. proc_moves\<^sup>*\<^sup>* s s' \<and> sh_lock s' = None \<and> (\<forall>p. sh_at s' p = Away) \<and> reports s' = {}"
proof -
  note inv = shreach_inv [OF assms(1)]
  obtain s1 where s1: "proc_moves\<^sup>*\<^sup>* s s1" "sh_lock s1 = None" "\<forall>p. sh_at s1 p = Away"
  proof (cases "sh_lock s")
    case None
    then show ?thesis using that [of s] locked_sections(1) [OF inv] by simp
  next
    case (Some q)
    then have q: "sh_at s q \<noteq> Away" using locked_sections(1) [OF inv, of q] by simp
    then have "alone q s" using holder_alone [OF inv] by simp
    with section_ends [OF q] that proc_runs show ?thesis by (fastforce simp: alone_def)
  qed
  have "finite (reports (sh_init files))"
    by (rule finite_subset [OF _ assms(2)]) (auto simp: reports_def sh_init_def)
  then have "finite (reports s1)"
    using proc_runs_reach [OF assms(1) s1(1)] few_reports.runs_keep unfolding shreach_def by blast
  then obtain ms where ms: "set ms = reports s1" "distinct ms" using finite_distinct_list by blast
  fix p :: 'a
  obtain s0 s2 where "(sweep_step p)\<^sup>*\<^sup>* s1 s0" "(sweep_step p)\<^sup>*\<^sup>* s0 s2" and s2: "sh_lock s2 = None" "sh_at s2 = sh_at s1"
    "sh_files s2 = (\<lambda>m. if m \<in> set ms \<and> (None :: syserr option) = None then None else sh_files s1 m)"
    using sweep_section [of s1 p ms "\<lambda>_. None"] s1(2,3) ms by blast
  then have run: "(cstep (Proc p))\<^sup>*\<^sup>* s1 s2" using section_moves(2) by (metis rtranclp_trans)
  have "reports s2 = {}" using s2(3) ms(1) by (auto simp: reports_def split: if_splits)
  then show ?thesis using s1 s2 rtranclp_trans [OF s1(1) proc_runs [OF run]] by auto
qed

subsection \<open>A concrete volume\<close>

definition demo_report :: bytes where "demo_report = ''/cache/fclones_report_1.txt''"

text \<open>Process 0 scans into its report; process 1 sweeps a volume that holds an orphan.\<close>

definition demo_scanning :: "nat shared" where
  "demo_scanning = goto 0 (Reporting demo_report)
     (set_file demo_report (Some []) (goto 0 Entered (sh_init (\<lambda>_. None)\<lparr>sh_lock := Some 0\<rparr>)))"

definition demo_swept :: "nat shared" where
  "demo_swept = goto 1 (Sweeping [] {}) (unlink demo_report (goto 1 (Sweeping [demo_report] {})
     (goto 1 Globbing (sh_init [demo_report \<mapsto> ''x'']\<lparr>sh_lock := Some 1\<rparr>))))"

lemma demo_matches: "matches_temp cacheDir demo_report"
  by (simp add: matches_temp_def demo_report_def cacheDir_def reportTempPattern_def)

lemma shreach_init: "shreach files (sh_init files)"
  by (simp add: shreach_def)

lemma shreach_step: "shreach files s \<Longrightarrow> cstep a s s' \<Longrightarrow> shreach files s'"
  unfolding shreach_def moves_def by (metis (mono_tags, lifting) rtranclp.rtrancl_into_rtrancl)

lemma demo_scanning_reached: "shreach (\<lambda>_. None) demo_scanning"
proof -
  have "shreach (\<lambda>_. None) (goto (0::nat) Entered (sh_init (\<lambda>_. None)\<lparr>sh_lock := Some 0\<rparr>))"
    by (rule shreach_step [OF shreach_init cstep.job [OF job_lock]]) (simp_all add: sh_init_def)
  then show ?thesis unfolding demo_scanning_def
    by (rule shreach_step [OF _ cstep.job [OF create]]) (simp_all add: sh_init_def demo_matches)
qed

lemma demo_swept_reached: "shreach [demo_report \<mapsto> ''x''] demo_swept"
proof -
  let ?f = "[demo_report \<mapsto> ''x'']"
  have "shreach ?f (goto (1::nat) Globbing (sh_init ?f\<lparr>sh_lock := Some 1\<rparr>))"
    by (rule shreach_step [OF shreach_init cstep.sweeping [OF sweep_lock]]) (simp_all add: sh_init_def)
  then have "shreach ?f (goto 1 (Sweeping [demo_report] {}) (goto (1::nat) Globbing (sh_init ?f\<lparr>sh_lock := Some 1\<rparr>)))"
    by (rule shreach_step [OF _ cstep.sweeping [OF glob]]) (auto simp: sh_init_def demo_matches reports_def)
  then show ?thesis unfolding demo_swept_def
    by (rule shreach_step [OF _ cstep.sweeping [OF sweep]]) simp
qed

lemma demo_report_at: "sh_files demo_scanning demo_report = Some []"
  by (simp add: demo_scanning_def)

theorem report_undisturbed_witness:
  "sh_files (set_file ''/cache/last-run'' (Some ''x'') demo_scanning) demo_report = Some [] \<and>
   sh_at (set_file ''/cache/last-run'' (Some ''x'') demo_scanning) 0 = Reporting demo_report"
proof -
  have at: "sh_at demo_scanning 0 = Reporting demo_report" by (simp add: demo_scanning_def)
  have "\<not> matches_temp cacheDir ''/cache/last-run''"
    by (simp add: matches_temp_def cacheDir_def reportTempPattern_def)
  then have "cstep Other demo_scanning (set_file ''/cache/last-run'' (Some ''x'') demo_scanning)"
    by (rule cstep.other)
  from report_undisturbed [OF demo_scanning_reached at, THEN conjunct2, THEN conjunct2, rule_format, OF this]
  show ?thesis by (simp only: demo_report_at mover.distinct not_False_eq_True)
qed

theorem sharing_exclusive_witness:
  "sh_at demo_scanning 1 = Away \<and> reports demo_scanning = {demo_report}"
  using sharing_exclusive [OF demo_scanning_reached, of 1] by (auto simp: demo_scanning_def sh_init_def)

theorem sweep_reclaims_witness: "reports demo_swept = {}"
  using sweep_reclaims [OF demo_swept_reached, of 1 "{}"] by (simp add: demo_swept_def)

theorem sections_are_runs_witness:
  "\<exists>s1 s'. (job_step 0)\<^sup>*\<^sup>* (sh_init (\<lambda>_. None) :: nat shared) s1 \<and> (job_step 0)\<^sup>*\<^sup>* s1 s' \<and>
     sh_at s1 0 = Reporting demo_report \<and> sh_files s1 demo_report = Some ''{}'' \<and>
     sh_files s' = w_fs (snd (runFclonesJob demo_job live_ctx demo_cfg ''once'' demo_world)) \<and>
     sh_lock s' = None \<and> sh_orphans s' = {}"
proof -
  let ?s = "sh_init (\<lambda>_. None) :: nat shared"
  have s: "sh_at ?s 0 = Away" "w_fs demo_world = sh_files ?s" "sh_lock ?s = None" "sh_orphans ?s = {}" "\<not> w_locked demo_world"
    by (simp_all add: sh_init_def demo_world_def)
  have m: "je_CreateTemp demo_job = Inr m \<Longrightarrow> sh_files ?s m = None \<and> matches_temp cacheDir m" for m
    using demo_matches by (simp add: demo_job_def sh_init_def demo_report_def)
  have l: "left_alone demo_job demo_cfg n" for n by (simp add: left_alone_def demo_job_def)
  have r: "report_of demo_job demo_cfg demo_report" "scan_output demo_job live_ctx demo_cfg = ''{}''"
    using demo_job_args by (auto simp: report_of_def scan_output_def demo_job_def demo_report_def)
  have f: "{m. report_of demo_job demo_cfg m \<and> je_removeFails demo_job} = {}" by (simp add: demo_job_def)
  note c = sections_are_runs [OF shreach_init s(1,2,5) s(3) _ m _ l refl refl, of "Inr False" None live_ctx "''once''",
      THEN conjunct1]
  obtain s1 s' where "(job_step 0)\<^sup>*\<^sup>* ?s s1" "(job_step 0)\<^sup>*\<^sup>* s1 s'"
     "sh_files s' = w_fs (snd (runFclonesJob demo_job live_ctx demo_cfg ''once'' demo_world))" "sh_lock s' = sh_lock ?s"
     "sh_orphans s' = sh_orphans ?s \<union> {m. report_of demo_job demo_cfg m \<and> je_removeFails demo_job}"
     "\<forall>m. report_of demo_job demo_cfg m \<longrightarrow> sh_at s1 0 = Reporting m \<and> sh_files s1 m = Some (scan_output demo_job live_ctx demo_cfg)"
    using c by auto
  then show ?thesis using r f s(3,4) by (intro exI [of _ s1] exI [of _ s']) simp
qed

theorem volume_recovers_witness:
  "\<exists>s'. proc_moves\<^sup>*\<^sup>* demo_scanning s' \<and> sh_lock s' = None \<and> reports s' = {}"
  using volume_recovers [OF demo_scanning_reached] by auto

end
