(* ===== verification/Spec2Isabelle.thy ===== *)
theory Spec2Isabelle
  imports Wrapper FclonesFlags Lifecycle Sharing
begin

text \<open>
  A verification development for docker-fclones-scheduler: a container process (Go) that runs the duplicate
  finder \<open>fclones\<close> over mounted directories on a schedule, decodes its report, and then optionally removes,
  links or dedupes what the scan found.

  \<^bold>\<open>The program.\<close> \<open>main.go\<close> dispatches: \<open>health\<close> probes a marker file, \<open>scan\<close> asks the running daemon for one
  run, anything else is the long-running process. That process reads its settings from the environment
  (\<open>config.go\<close>), checks its cache directory, sweeps stale report files, and either performs one job
  (\<open>runOnce\<close>) or becomes a daemon (\<open>daemon.go\<close>) whose executor performs one job per request. A job
  (\<open>scheduler.go\<close>) takes a lock, runs \<open>fclones group\<close> with its output in a report file, decodes the report
  (\<open>internal/parsing\<close>), logs the duplicates, and runs the configured action over the report. The stderr of
  every command goes through a filter (\<open>internal/linefilter\<close>) and into a capped buffer
  (\<open>internal/capbuf\<close>); argument strings are split by \<open>internal/args\<close>. The image build compares the options
  of the pinned \<open>fclones\<close> with a committed list (\<open>internal/fclonesflags\<close>).

  \<^bold>\<open>Theories\<close>, each importing what it calls:
  \<^item> \<open>Prelude\<close>: types, errors as sums, the collection \<open>ascii_simps\<close>, the locales \<open>stepper\<close> (a step function with an
    invariant), \<open>step_invariant\<close> (a step relation with one), \<open>simulation\<close> (a labelled machine, a specification
    and a view of the states: then what is observed of a run is a run of the specification), and \<open>io_writer\<close>/\<open>tee\<close> (the contract of \<open>io.Writer\<close> and \<open>io.MultiWriter\<close>).
  \<^item> \<open>Utf8\<close>, \<open>GoStrings\<close>, \<open>GoFloat\<close>: the parts of the Go standard library the code uses: decoding and
    encoding of runes, \<open>strings\<close>, \<open>strconv\<close>, and \<open>float64\<close> as sign, mantissa and exponent with rounding
    to nearest even.
  \<^item> \<open>Args\<close>: \<open>internal/args/args.go\<close>. The parser state is the record \<open>parser\<close>; one rune is one \<open>step\<close>.
  \<^item> \<open>Capbuf\<close>: \<open>internal/capbuf/capbuf.go\<close>, the record \<open>Buffer\<close> with its three methods.
  \<^item> \<open>Linefilter\<close>: \<open>internal/linefilter/linefilter.go\<close>. The record \<open>Writer\<close> holds the partial line, the
    flood count and the sink; \<open>lf_Write\<close>, \<open>lf_Flush\<close> are its methods, \<open>shouldFilterLine\<close> and
    \<open>sanitizeControlBytes\<close> the decisions about a line.
  \<^item> \<open>Parsing\<close>, \<open>Report\<close>: the two halves of \<open>internal/parsing/parsing.go\<close>: sizes and the action summary; the
    report decoder over a streaming JSON decoder.
  \<^item> \<open>Log\<close>: errors (one constructor per error the code makes), log lines as values, steps that log.
  \<^item> \<open>Outcome\<close>: contexts, \<open>phaseContext\<close> and \<open>outcome.go\<close>.
  \<^item> \<open>Config\<close>: \<open>config.go\<close>. The four gates over argument strings are instances of the locale \<open>flag_gate\<close>.
  \<^item> \<open>Scheduler\<close>: \<open>scheduler.go\<close>. The record \<open>world\<close> is what a job changes (files, lock, log, terminal,
    commands run), the record \<open>jobenv\<close> what its environment answers. An fclones process is an answer too: its
    output, its error, and in \<open>cr_files\<close> what it does to the files (the scan its cache, the action whatever it
    removes or links). A file that neither process of a job changes is \<open>left_alone\<close>.
  \<^item> \<open>Sharing\<close>: the cache volume under several processes (other containers, one-shot runs): the locked
    sections of \<open>runFclonesJob\<close> (\<open>job_step\<close>) and of \<open>cleanStaleReports\<close> (\<open>sweep_step\<close>), call by call, and
    in \<open>cstep\<close> all of them in any interleaving, with the other programs of the volume and with a process killed
    at any point.
  \<^item> \<open>Daemon\<close>: \<open>health.go\<close> and \<open>daemon.go\<close>; \<open>dstate\<close> is the world, the health marker and the stamp.
    \<open>daemon_run\<close> is one request served without a break and \<open>run_outcome\<close> what it is answered,
    \<open>tickerOptions\<close> are the options of the ticker's loop and \<open>startTicker\<close> the order of what it submits;
    \<open>runDaemon\<close> is the main flow with what happens beside it between two of its statements.
  \<^item> \<open>Lifecycle\<close>: the same daemon as a state machine: main flow, executor, ticker, queue and server as the
    step relation \<open>lstep\<close>, in any order, over one clock and the one context of the daemon. A run is four
    moves of the executor (it takes a request, its job ends, the outcome is recorded, the request is
    answered), so that a shutdown, a request or a tick may fall between any two. Moves that can be observed
    carry a label; the relation \<open>promise\<close> specifies, without goroutines, which labels may follow each other.
  \<^item> \<open>Wrapper\<close>: \<open>client.go\<close> and \<open>main.go\<close> down to the exit codes.
  \<^item> \<open>FclonesFlags\<close>: \<open>internal/fclonesflags/fclonesflags.go\<close>; the regular expressions are functions on a line,
    proved equal to a grammar, and the comparison rests on the locale \<open>sorted_lookup\<close>.

  \<^bold>\<open>Conventions.\<close> A Go string or byte slice is a list of bytes. A pair of a value and an error is a sum with the
  error on the left; a returned error alone is an option. \<open>int\<close> and \<open>int64\<close> are \<open>int\<close> with the bounds written
  where the code reaches them (\<open>atoi\<close>, \<open>floatToInt64\<close>). Time is \<open>int\<close> nanoseconds; a context is the instant
  and the cause of its end, and every look of the code at a context or a clock is an instant given by the
  environment, so that a cancellation may fall between any two looks.

  \<^bold>\<open>Parameters\<close> (code that is not in the repository): \<open>textsafe.IsUnsafeNonASCII\<close>, the Unicode case tables, the
  sink of the filter, \<open>envx\<close> and \<open>scheduler.ParseInterval\<close>, the \<open>jsonx\<close> decoder, the process runner, the
  lock, the health latch, the stamp and the trigger socket. What a theorem needs of one of them is a
  hypothesis with a name (\<open>object_contract\<close>, \<open>latch_contract\<close>, \<open>stamp_contract\<close>, \<open>remaining_contract\<close>, and
  \<open>carries\<close>: the final event of the trigger library has the outcome of the run), shown to hold for a concrete
  instance. \<open>run\<close> bootstraps under the context it is called with and makes the one that ends with a signal only
  afterwards; \<open>run_main\<close> takes both.

  \<^bold>\<open>What is shown.\<close> \<open>Args\<close>: quoting round trip, splitting. \<open>Capbuf\<close>: content and counters. \<open>Linefilter\<close>: what reaches
  the terminal for every chunking of the input, safety and framing of the escape, the noise decision,
  the bounded buffer. \<open>Parsing\<close>: sizes round trip, the line that decides the summary. \<open>Report\<close>: accepted
  reports are consistent, streams are counted in full. \<open>Config\<close>: accepted environments and the
  configuration they give, one log line per refusal. \<open>Scheduler\<close>: which commands run and when, what a job
  leaves of its lock and its files on every path, what an action's result is, what the terminal is sent, one
  tagged error line per failure, the no-op verdict, bounded logging, the sweep. \<open>Sharing\<close>: a report in use is touched by nobody else, one process at a time is in a locked section, a sweep reclaims
  what killed processes left, the volume can always recover, and the sequential job and sweep are each a run
  of one process of the relation to the end of its section. \<open>Daemon\<close>: marker,
  stamp, boot state, what a restart remembers, drain, probe. \<open>Lifecycle\<close>: what is observed of any
  interleaving is a run of the specification, so requests are answered once and in order and the marker
  is what was last recorded; an interleaving that stops is a run of the sequential daemon; the invariants of
  all reachable states, no deadlock on the way to the end. \<open>Wrapper\<close>: exit codes,
  a triggered scan from the job to the client, a failed scan from the process to the client, startup
  failures. \<open>FclonesFlags\<close>: exact comparison, inventory, option lines, list round trip. This theory:
  what a failed startup leaves, the commands of a process from its environment, in one-shot mode and in
  every mode until it ends.

  \<^bold>\<open>Bounds and fuel.\<close> \<open>MaxLineBytes\<close>, \<open>streamCapBytes\<close>, \<open>maxLoggedPairs\<close>, \<open>maxLoggedGroups\<close> and
  \<open>logDetailCapBytes\<close> are the code's. The group loop of the decoder is bounded by \<open>report_fuel\<close>, one more than
  the bytes of the report: every group takes at least one byte of it, and then the bound is never what ends
  the loop and no larger one changes the report (\<open>decode_terminates\<close>). Every other loop is structural or
  has a measure.

  \<^bold>\<open>Not modelled.\<close> Signal delivery (it is the end of the context), the creation of the socket,
  its server and the wire format of its events, and the JSON grammar are third-party or pure input and
  output. The alert rules, the image build, scripts, documents and licenses hold no program logic.
\<close>

subsection \<open>Across the components\<close>

text \<open>
  A startup that fails touches nothing: no command runs, no file is removed, the lock is not taken, the
  marker ends unhealthy and the process exits with 1, for every reason the settings or the cache
  directory can be refused.
\<close>

theorem failed_startup_is_inert:
  assumes "snd (bootstrap st parent) = Inl e" "latch_contract S draining"
    and "\<And>h. sv_healthy S (cleanup h) = False"
  shows "(case run_main S cleanup st parent ctx d of
      (r, d') \<Rightarrow> r = Some e \<and> w_cmds (ds_world d') = w_cmds (ds_world d) \<and> w_fs (ds_world d') = w_fs (ds_world d) \<and>
        w_locked (ds_world d') = w_locked (ds_world d) \<and> ds_stamp d' = ds_stamp d \<and>
        \<not> sv_healthy S (ds_health d') \<and> snd (main_exit probe E [] r c) = 1)"
  using assms by (cases "bootstrap st parent") (simp add: run_main_def main_exit_def dispatch_def Let_def)

definition bad_start :: "(bytes list, doc) startenv" where
  "bad_start = \<lparr>st_env = demo_env\<lparr>env_String := (\<lambda>_. ''explode'')\<rparr>,
     st_probe_fs = \<lparr>fs_MkdirAll = (\<lambda>_. None), fs_Create = (\<lambda>_. None)\<rparr>, st_now = 0, st_probeSelect = (0, True),
     st_probeDone = Some 1, st_uid = 1000, st_sweepLock = Inr True, st_removeErr = (\<lambda>_. None), st_glob = Some [],
     st_job = demo_job, st_errAt = (5, 5), st_listenErr = None,
     st_segments = \<lparr>sg_start = [], sg_serve = [], sg_notice = [], sg_drain = []\<rparr>\<rparr>"

theorem failed_startup_is_inert_witness:
  "w_cmds (ds_world (snd (run_main demo_svc (\<lambda>_. (False, False)) bad_start live_ctx live_ctx demo_state))) = []"
proof -
  have b: "snd (bootstrap bad_start live_ctx) = Inl (ErrInvalidAction ''explode'')"
    by (simp add: bootstrap_def bad_start_def loadConfig_def cmp_Or_def parseAction_def validActions_def
        log_bind_def log_fail_def setupLogger_def demo_env_def Let_def)
  show ?thesis
  proof -
    have c: "sv_healthy demo_svc ((\<lambda>_. (False, False)) h) = False" for h :: "bool \<times> bool"
      by (simp add: demo_svc_def)
    have "w_cmds (ds_world demo_state) = []" by (simp add: demo_state_def demo_world_def)
    with failed_startup_is_inert [OF b demo_contract c, where ctx = live_ctx and d = demo_state and probe = "\<lambda>_. 0" and E = demo_env and c = 0]
    show ?thesis by (auto split: prod.splits)
  qed
qed

subsection \<open>From the environment to the commands\<close>

lemma job_ok_ran:
  "snd (fst (runFclonesJob E ctx cfg trig w)) = None \<Longrightarrow> je_TryLock E \<noteq> Inr False \<Longrightarrow>
     w_cmds (snd (runFclonesJob E ctx cfg trig w)) \<noteq> w_cmds w"
proof -
  assume n: "snd (fst (runFclonesJob E ctx cfg trig w)) = None" and l: "je_TryLock E \<noteq> Inr False"
  let ?base = "[(''scan_id'', VStr (newScanID (je_rand E))), (''trigger'', VStr trig)]"
  have lk: "je_TryLock E = Inr True"
    using n l by (cases "je_TryLock E") (auto simp: runFclonesJob_def)
  obtain scan p where s: "buildScanArgs cfg = Inr scan" "je_CreateTemp E = Inr p"
    using n lk by (auto simp: runFclonesJob_def locked_job_def Let_def split: sum.splits prod.splits)
  have "plain_base ?base" by (simp add: plain_base_def)
  from scan_steps [OF this, of E ctx cfg scan p "w\<lparr>w_locked := True, w_fs := (w_fs w)(p := Some [])\<rparr>"]
  show ?thesis
    by (auto simp: runFclonesJob_def lk locked_job_def s steps_to_def appends_def Let_def split: prod.splits)
qed


lemma runOnce_cmds:
  "runOnce set_m E ctx cfg uid ts hw = (r, h, w) \<Longrightarrow>
     \<exists>w0. w_cmds w0 = w_cmds (snd hw) \<and> w_cmds w = w_cmds (snd (runFclonesJob E ctx cfg ''once'' w0)) \<and>
       (r = None \<longrightarrow> snd (fst (runFclonesJob E ctx cfg ''once'' w0)) = None \<and> je_TryLock E \<noteq> Inr False)"
proof -
  assume r: "runOnce set_m E ctx cfg uid ts hw = (r, h, w)"
  define w0 where "w0 = wlog [] Info ''container started (run once)''
                 [(''uid'', VInt uid), (''mode'', VStr (runMode_String (Mode cfg))),
                  (''target'', VStr (ScanPath cfg)), (''action'', VStr (action_String (Action cfg))),
                  (''phase_timeout'', VDur (PhaseTimeout cfg))] (snd hw)"
  obtain did_run err w1 where j: "runFclonesJob E ctx cfg ''once'' w0 = ((did_run, err), w1)"
    by (metis prod.exhaust)
  have d: "did_run \<longleftrightarrow> je_TryLock E \<noteq> Inr False"
    using job_steps [of E ctx cfg "''once''" w0] by (auto simp: j Let_def)
  have "w_cmds w = w_cmds w1 \<and> (r = None \<longrightarrow> err = None \<and> did_run)"
    using r unfolding runOnce_def Let_def w0_def [symmetric] j prod.case
    by (cases err; cases did_run; cases "ctx_Err ctx (snd ts)") (auto simp: classifyRunOnceOutcome_def)
  then show ?thesis using d j by (intro exI [of _ w0]) (simp add: w0_def)
qed

lemma sweep_cmds [simp]: "w_cmds (sweep_loop fails ms w) = w_cmds w"
  by (induction fails ms w rule: sweep_loop.induct) (simp_all split: option.splits)

lemma clean_cmds [simp]: "w_cmds (cleanStaleReports lock fails glob w) = w_cmds w"
  by (auto simp: cleanStaleReports_def sweepStaleReports_def split: sum.splits bool.splits option.splits)

text \<open>
  C18. From the environment to the commands: in one-shot mode the process runs, for an environment it accepts,
  at most the scan over exactly the configured paths, with the user's flags and the wrapper's own last,
  and after it the configured action; and an exit without error means that the scan was run.
\<close>

theorem one_shot_commands:
  assumes "run_main S cleanup st parent ctx d = (r, d')" "snd (bootstrap st parent) = Inr cfg" "Mode cfg = modeOnce"
  shows "\<exists>p a b cs. w_cmds (ds_world d') = w_cmds (ds_world d) @ cs \<and>
    (let scan = [''group''] @ p @ a @ [''--cache'', ''-f'', ''json'']; act = action_String (Action cfg) # b in
      (cs = [] \<or> cs = [scan] \<or> cs = [scan, act] \<and> Action cfg \<noteq> actionGroup) \<and> (cs = [] \<longrightarrow> r \<noteq> None)) \<and>
    Parse (ScanPath cfg) = Inr p \<and> none_owned (unicode (st_env st)) a \<and> only_flag_values a \<and> only_flag_values b \<and>
    (unsafe_allowed (st_env st) \<or> none_dangerous (unicode (st_env st)) (p @ a @ b))"
proof -
  have l: "snd (loadConfig (st_env st)) = Inr cfg"
    using assms(2) by (auto simp: bootstrap_def log_bind_def split: prod.splits sum.splits option.splits)
  obtain p a b where c: "buildScanArgs cfg = Inr ([''group''] @ p @ a @ [''--cache'', ''-f'', ''json''])"
      "buildActionArgs cfg = Inr (if Action cfg = actionGroup then None else Some (action_String (Action cfg) # b))"
      "Parse (ScanPath cfg) = Inr p" "none_owned (unicode (st_env st)) a" "only_flag_values a" "only_flag_values b"
      "unsafe_allowed (st_env st) \<or> none_dangerous (unicode (st_env st)) (p @ a @ b)"
    using accepted_builds [OF l] by blast
  obtain ls where b: "bootstrap st parent = (ls, Inr cfg)" using assms(2) by (metis prod.collapse)
  obtain h w w1 where o: "runOnce (sv_Set S) (st_job st) ctx cfg (st_uid st) (st_errAt st) (ds_health d, w1) = (r, h, w)"
      "w_cmds w1 = w_cmds (ds_world d)" "w_cmds (ds_world d') = w_cmds w"
    using assms(1,3) by (fastforce simp: run_main_def b Let_def split: prod.splits)
  obtain w0 where w0: "w_cmds w0 = w_cmds (ds_world d)"
      "w_cmds (ds_world d') = w_cmds (snd (runFclonesJob (st_job st) ctx cfg ''once'' w0))"
      "r = None \<longrightarrow> snd (fst (runFclonesJob (st_job st) ctx cfg ''once'' w0)) = None \<and> je_TryLock (st_job st) \<noteq> Inr False"
    using runOnce_cmds [OF o(1)] o(2,3) by auto
  obtain cs where cs: "w_cmds (ds_world d') = w_cmds (ds_world d) @ cs" "job_cmds (st_job st) ctx cfg cs"
    using job_steps [of "st_job st" ctx cfg "''once''" w0] w0(1,2) by (auto simp: Let_def)
  have "cs = [] \<longrightarrow> r \<noteq> None" using w0 cs(1) job_ok_ran [of "st_job st" ctx cfg "''once''" w0] by auto
  moreover have "cs = [] \<or> cs = [[''group''] @ p @ a @ [''--cache'', ''-f'', ''json'']] \<or>
      cs = [[''group''] @ p @ a @ [''--cache'', ''-f'', ''json''], action_String (Action cfg) # b] \<and> Action cfg \<noteq> actionGroup"
    using cs(2) c(1,2) by (cases cs) (auto simp: job_cmds_def action_cmds_def)
  ultimately show ?thesis using cs(1) c(3-) unfolding Let_def by blast
qed


definition once_env :: envp where
  "once_env = \<lparr>env_String = env_String demo_env, env_DurationStrict = env_DurationStrict demo_env,
     env_Getenv = env_Getenv demo_env, sched_ParseInterval = (\<lambda>_ d. (ModeOnce, 0)),
     show_duration = show_duration demo_env, slog_ParseLevel = slog_ParseLevel demo_env, unicode = unicode demo_env\<rparr>"

definition once_start :: "(bytes list, doc) startenv" where
  "once_start = bad_start\<lparr>st_env := once_env\<rparr>"

lemma once_boot: "snd (bootstrap once_start live_ctx) = Inr \<lparr>ScanPath = ''/scandir'', cfgArgs = ''--rf-over 1'',
     Action = actionGroup, ActionArgs = [], Interval = 0, PhaseTimeout = 12 * hour, Mode = modeOnce\<rparr>"
proof -
  have u: "unicode once_env = unicode demo_env" "unsafe_allowed once_env = unsafe_allowed demo_env"
    by (simp_all add: once_env_def unsafe_allowed_def)
  have "args_accepted once_env ''--rf-over 1'' [] ''/scandir''"
    using demo_accepted unfolding args_accepted_def u .
  then have "snd (loadConfig (st_env once_start)) = Inr \<lparr>ScanPath = ''/scandir'', cfgArgs = ''--rf-over 1'',
     Action = actionGroup, ActionArgs = [], Interval = 0, PhaseTimeout = 12 * hour, Mode = modeOnce\<rparr>"
    by (simp add: load_iff once_start_def) (simp add: once_env_def demo_env_def parseAction_def validActions_def cmp_Or_def
        scanDir_def parseInterval_def defaultInterval_def)
  then show ?thesis
    by (cases "loadConfig (st_env once_start)")
      (simp add: bootstrap_def log_bind_def setupLogger_def once_start_def bad_start_def once_env_def demo_env_def verifyCacheDir_def
        verifyDir_def verifyDirWithProbe_def writeProbe_def with_timeout_def live_ctx_def Let_def)
qed

theorem one_shot_commands_witness:
  "\<exists>cs. w_cmds (ds_world (snd (run_main demo_svc id once_start live_ctx live_ctx demo_state))) = cs \<and>
     (cs = [] \<or> (\<exists>p a. cs = [[''group''] @ p @ a @ [''--cache'', ''-f'', ''json'']]))"
proof -
  obtain r d' where o: "run_main demo_svc id once_start live_ctx live_ctx demo_state = (r, d')" by fastforce
  have "w_cmds (ds_world demo_state) = []" by (simp add: demo_state_def demo_world_def)
  with one_shot_commands [OF o once_boot] o show ?thesis by (auto simp: Let_def)
qed

text \<open>The commands that the configuration names; what a part of the process ran is made of these.\<close>

definition cfg_cmd :: "config \<Rightarrow> bytes list \<Rightarrow> bool" where
  "cfg_cmd cfg c \<longleftrightarrow> buildScanArgs cfg = Inr c \<or> Action cfg \<noteq> actionGroup \<and> buildActionArgs cfg = Inr (Some c)"

definition only_cmds :: "config \<Rightarrow> 't world \<Rightarrow> 't world \<Rightarrow> bool" where
  "only_cmds cfg w w' \<longleftrightarrow> (\<exists>cs. w_cmds w' = w_cmds w @ cs \<and> list_all (cfg_cmd cfg) cs)"

lemma only_cmds_same: "w_cmds w' = w_cmds w \<Longrightarrow> only_cmds cfg w w'"
  by (simp add: only_cmds_def)

lemma only_cmds_trans: "only_cmds cfg w w1 \<Longrightarrow> only_cmds cfg w1 w2 \<Longrightarrow> only_cmds cfg w w2"
  by (fastforce simp: only_cmds_def)

lemma only_cmds_job: "only_cmds cfg w (snd (runFclonesJob E ctx cfg trig w))"
proof -
  obtain cs where cs: "w_cmds (snd (runFclonesJob E ctx cfg trig w)) = w_cmds w @ cs" "job_cmds E ctx cfg cs"
    using job_steps [of E ctx cfg trig w] by (auto simp: Let_def)
  have "list_all (cfg_cmd cfg) cs"
    using cs(2) by (cases cs) (auto simp: job_cmds_def action_cmds_def cfg_cmd_def)
  with cs(1) show ?thesis by (auto simp: only_cmds_def)
qed

lemma only_cmds_serve: "only_cmds cfg (ds_world d) (ds_world (serve S cfg d q))"
proof -
  obtain did_run err w where j: "runFclonesJob (q_env q) (q_ctx q) cfg (q_trigger q) (ds_world d) = ((did_run, err), w)"
    by (metis prod.exhaust)
  have "w_cmds (ds_world (serve S cfg d q)) = w_cmds w"
    by (auto simp: serve_def daemon_run_def j recordOutcome_def Let_def split: prod.splits option.splits)
  then show ?thesis using only_cmds_job [of cfg "ds_world d" "q_env q" "q_ctx q" "q_trigger q"]
    by (simp add: j only_cmds_def)
qed

lemma only_cmds_event: "only_cmds cfg (ds_world d) (ds_world (dev_step S cfg d e))"
proof (cases e)
  case (OutcomeRecorded t ce did_run err)
  then show ?thesis
    by (intro only_cmds_same) (auto simp: recordOutcome_def Let_def split: prod.splits option.splits)
qed (auto simp: only_cmds_serve only_cmds_job tick_def intro: only_cmds_same)

interpretation daemon_cmds: stepper "dev_step S cfg" "\<lambda>d. only_cmds cfg w0 (ds_world d)" for S cfg w0
  by unfold_locales (blast intro: only_cmds_trans only_cmds_event)

lemma only_cmds_daemon: "only_cmds cfg (ds_world d) (ds_world (snd (runDaemon S ctx cfg listenErr now uid sg d)))"
proof (cases listenErr)
  case None
  obtain due d1 where b: "daemon_boot S cfg now d = (due, d1)" by fastforce
  have "only_cmds cfg (ds_world d) (ds_world d1)"
    using b by (intro only_cmds_same) (auto simp: daemon_boot_def Let_def split: prod.splits if_splits)
  then have 1: "only_cmds cfg (ds_world d) (ds_world (foldl (dev_step S cfg) d1 (sg_start sg)))"
    by (rule daemon_cmds.run_inv)
  have keep: "only_cmds cfg w (ds_world (container_started cfg uid due x)) = only_cmds cfg w (ds_world x)"
    "only_cmds cfg w (ds_world (shutting_down ctx x)) = only_cmds cfg w (ds_world x)"
    "only_cmds cfg w (ds_world (begin_drain S x)) = only_cmds cfg w (ds_world x)"
    "only_cmds cfg w (ds_world (shutdown_complete x)) = only_cmds cfg w (ds_world x)" for w x
    by (simp_all add: only_cmds_def container_started_def shutting_down_def begin_drain_def shutdown_complete_def)
  show ?thesis
    unfolding runDaemon_def None b option.case prod.case Let_def snd_conv keep
    by (intro daemon_cmds.run_inv, simp only: keep)+ (rule 1)
next
  case (Some e)
  then show ?thesis by (intro only_cmds_same) (simp add: runDaemon_def)
qed

lemma only_cmds_once:
  "only_cmds cfg (snd hw) (snd (snd (runOnce set_m E ctx cfg uid ts hw)))"
proof -
  obtain r h w where "runOnce set_m E ctx cfg uid ts hw = (r, h, w)" by (metis prod.exhaust)
  moreover obtain w0 where "w_cmds w0 = w_cmds (snd hw)" "w_cmds w = w_cmds (snd (runFclonesJob E ctx cfg ''once'' w0))"
    using runOnce_cmds [OF calculation] by blast
  ultimately show ?thesis
    using only_cmds_job [of cfg w0 E ctx "''once''"] by (simp add: only_cmds_def)
qed

lemma only_cmds_main:
  assumes "snd (bootstrap st parent) = Inr cfg"
  shows "only_cmds cfg (ds_world d) (ds_world (snd (run_main S cleanup st parent ctx d)))"
proof -
  obtain ls where b: "bootstrap st parent = (ls, Inr cfg)" using assms by (metis prod.collapse)
  define w where "w = cleanStaleReports (st_sweepLock st) (st_removeErr st) (st_glob st) (put_logs ls (ds_world d))"
  have w: "only_cmds cfg (ds_world d) w" by (rule only_cmds_same) (simp add: w_def)
  show ?thesis
  proof (cases "Mode cfg = modeOnce")
    case True
    obtain err h w' where o: "runOnce (sv_Set S) (st_job st) ctx cfg (st_uid st) (st_errAt st) (ds_health d, w) = (err, h, w')"
      by (metis prod.exhaust)
    then have "only_cmds cfg w w'"
      using only_cmds_once [of cfg "(ds_health d, w)" "sv_Set S" "st_job st" ctx "st_uid st" "st_errAt st"] by simp
    moreover have "ds_world (snd (run_main S cleanup st parent ctx d)) = w'"
      by (simp add: run_main_def b True o Let_def flip: w_def)
    ultimately show ?thesis using w only_cmds_trans by metis
  next
    case False
    then have "ds_world (snd (run_main S cleanup st parent ctx d))
        = ds_world (snd (runDaemon S ctx cfg (st_listenErr st) (st_now st) (st_uid st) (st_segments st) (d\<lparr>ds_world := w\<rparr>)))"
      by (cases "Mode cfg") (simp_all add: run_main_def b Let_def flip: w_def)
    then show ?thesis using w only_cmds_trans
        only_cmds_daemon [of cfg "d\<lparr>ds_world := w\<rparr>" S ctx "st_listenErr st" "st_now st" "st_uid st" "st_segments st"]
      by (metis dstate.select_convs(1) dstate.update_convs(1) dstate.surjective)
  qed
qed

text \<open>
  C1. What the process ever runs, in every mode and until it ends: nothing when its startup fails;
  otherwise only two commands, the scan over exactly the configured paths with the user's flags and
  the wrapper's own last, and the configured action, and no token of either is one the
  configuration gates refuse.
\<close>

theorem process_commands:
  "(case snd (bootstrap st parent) of
      Inl e \<Rightarrow> fst (run_main S cleanup st parent ctx d) = Some e \<and>
        w_cmds (ds_world (snd (run_main S cleanup st parent ctx d))) = w_cmds (ds_world d)
    | Inr cfg \<Rightarrow>
        \<exists>p a b cs. w_cmds (ds_world (snd (run_main S cleanup st parent ctx d))) = w_cmds (ds_world d) @ cs \<and>
          set cs \<subseteq> {[''group''] @ p @ a @ [''--cache'', ''-f'', ''json'']} \<union>
            (if Action cfg = actionGroup then {} else {action_String (Action cfg) # b}) \<and>
          Parse (ScanPath cfg) = Inr p \<and> none_owned (unicode (st_env st)) a \<and> only_flag_values a \<and> only_flag_values b \<and>
          (unsafe_allowed (st_env st) \<or> none_dangerous (unicode (st_env st)) (p @ a @ b)))"
proof (cases "snd (bootstrap st parent)")
  case (Inl e)
  then obtain ls where "bootstrap st parent = (ls, Inl e)" by (metis prod.collapse)
  then show ?thesis by (simp add: run_main_def)
next
  case (Inr cfg)
  have l: "snd (loadConfig (st_env st)) = Inr cfg"
    using Inr by (auto simp: bootstrap_def log_bind_def split: prod.splits sum.splits option.splits)
  obtain p a b where c: "buildScanArgs cfg = Inr ([''group''] @ p @ a @ [''--cache'', ''-f'', ''json''])"
      "buildActionArgs cfg = Inr (if Action cfg = actionGroup then None else Some (action_String (Action cfg) # b))"
      "Parse (ScanPath cfg) = Inr p" "none_owned (unicode (st_env st)) a" "only_flag_values a" "only_flag_values b"
      "unsafe_allowed (st_env st) \<or> none_dangerous (unicode (st_env st)) (p @ a @ b)"
    using accepted_builds [OF l] by blast
  obtain cs where cs: "w_cmds (ds_world (snd (run_main S cleanup st parent ctx d))) = w_cmds (ds_world d) @ cs"
      "list_all (cfg_cmd cfg) cs"
    using only_cmds_main [OF Inr, of d S cleanup] unfolding only_cmds_def by blast
  have "set cs \<subseteq> {[''group''] @ p @ a @ [''--cache'', ''-f'', ''json'']} \<union>
      (if Action cfg = actionGroup then {} else {action_String (Action cfg) # b})"
    using cs(2) c(1,2) by (auto simp: cfg_cmd_def list_all_iff)
  with cs(1) c(3-) Inr show ?thesis by fastforce
qed

end
